theory Spec2Isabelle
  imports Complex_Main "HOL-Library.Char_ord" "HOL-Library.List_Lexorder"
begin

section \<open>Python strings\<close>

text \<open>
  A Python \<open>str\<close> is modelled as a \<open>string\<close> (a list of characters). A character of
  the model is a code point below 256; code points above are outside the model. The
  functions below are the methods of \<open>str\<close> that the repository calls, with Python's
  behaviour on every input of the model.
\<close>

datatype py_error = ValueError | AttributeError | SystemExit | OtherError

definition is_space :: "char \<Rightarrow> bool" where
  \<comment> \<open>\<open>str.isspace\<close> on one character: what \<open>strip()\<close> without argument removes.\<close>
  "is_space c = (c \<in> set [CHR 0x09, CHR 0x0A, CHR 0x0B, CHR 0x0C, CHR 0x0D,
      CHR 0x1C, CHR 0x1D, CHR 0x1E, CHR 0x1F, CHR '' '', CHR 0x85, CHR 0xA0])"

definition lower_char :: "char \<Rightarrow> char" where
  \<comment> \<open>\<open>A\<close>..\<open>Z\<close> and the capital letters of Latin-1 move down by 32.\<close>
  "lower_char c = (let n = (of_char c :: nat) in
     if (65 \<le> n \<and> n \<le> 90) \<or> (192 \<le> n \<and> n \<le> 222 \<and> n \<noteq> 215)
     then char_of (n + 32) else c)"

definition lower :: "string \<Rightarrow> string" where
  "lower s = map lower_char s"

definition lstrip :: "string \<Rightarrow> string" where
  "lstrip s = dropWhile is_space s"

definition rstrip :: "string \<Rightarrow> string" where
  "rstrip s = rev (dropWhile is_space (rev s))"

definition strip :: "string \<Rightarrow> string" where
  "strip s = rstrip (lstrip s)"

definition rstrip_chars :: "string \<Rightarrow> string \<Rightarrow> string" where
  \<comment> \<open>\<open>s.rstrip(cs)\<close>\<close>
  "rstrip_chars cs s = rev (dropWhile (\<lambda>c. c \<in> set cs) (rev s))"

definition strip_chars :: "string \<Rightarrow> string \<Rightarrow> string" where
  \<comment> \<open>\<open>s.strip(cs)\<close>\<close>
  "strip_chars cs s = rstrip_chars cs (dropWhile (\<lambda>c. c \<in> set cs) s)"

definition startswith :: "string \<Rightarrow> string \<Rightarrow> bool" where
  "startswith s p = (take (length p) s = p)"

definition endswith :: "string \<Rightarrow> string \<Rightarrow> bool" where
  "endswith s p = (length p \<le> length s \<and> drop (length s - length p) s = p)"

fun contains :: "string \<Rightarrow> string \<Rightarrow> bool" where
  \<comment> \<open>\<open>sub in s\<close>\<close>
  "contains [] sub = (sub = [])"
| "contains (c # cs) sub = (startswith (c # cs) sub \<or> contains cs sub)"

definition before_first :: "char \<Rightarrow> string \<Rightarrow> string" where
  \<comment> \<open>\<open>s.split(c)[0]\<close>: the text before the first \<open>c\<close>, all of \<open>s\<close> when there is none.\<close>
  "before_first c s = takeWhile (\<lambda>x. x \<noteq> c) s"

definition before_last :: "char \<Rightarrow> string \<Rightarrow> string" where
  \<comment> \<open>\<open>s.rsplit(c, 1)[0]\<close> for an \<open>s\<close> that holds \<open>c\<close>.\<close>
  "before_last c s = rev (drop 1 (dropWhile (\<lambda>x. x \<noteq> c) (rev s)))"

definition after_last :: "char \<Rightarrow> string \<Rightarrow> string" where
  \<comment> \<open>\<open>s.rsplit(c, 1)[-1]\<close> and \<open>s.split(c)[-1]\<close>: the text after the last \<open>c\<close>, all of
      \<open>s\<close> when there is none.\<close>
  "after_last c s = rev (takeWhile (\<lambda>x. x \<noteq> c) (rev s))"

fun remove_all :: "string \<Rightarrow> string \<Rightarrow> string" where
  \<comment> \<open>\<open>s.replace(old, "")\<close> for a non-empty \<open>old\<close>: every occurrence, found from the
      left and not overlapping, is removed.\<close>
  "remove_all old [] = []"
| "remove_all old (c # cs) =
     (if old \<noteq> [] \<and> startswith (c # cs) old
      then remove_all old (drop (length old) (c # cs))
      else c # remove_all old cs)"

fun join :: "string \<Rightarrow> string list \<Rightarrow> string" where
  \<comment> \<open>\<open>sep.join(xs)\<close>\<close>
  "join sep [] = []"
| "join sep [x] = x"
| "join sep (x # y # ys) = x @ sep @ join sep (y # ys)"

section \<open>Website normalisation (utils/places.py, utils/osm_places.py)\<close>

text \<open>
  \<open>_normalize_website\<close> is defined twice, in \<open>utils/places.py\<close> and in
  \<open>utils/osm_places.py\<close>, with the same body; one definition embeds both. The argument
  is a \<open>str\<close>, so the \<open>isinstance\<close> test passes and only the empty string returns early.
\<close>

definition is_http_prefixed :: "string \<Rightarrow> bool" where
  \<comment> \<open>\<open>s.startswith(("http://", "https://"))\<close>\<close>
  "is_http_prefixed s = (startswith s ''http://'' \<or> startswith s ''https://'')"

definition normalize_website :: "string \<Rightarrow> string" where
  "normalize_website url0 =
     (if url0 = [] then []
      else let url1 = strip url0;
               url2 = (if CHR ''?'' \<in> set url1
                       then rstrip_chars ''/'' (before_first CHR ''?'' url1) else url1);
               url3 = (if url2 \<noteq> [] \<and> \<not> is_http_prefixed (lower url2)
                       then ''https://'' @ url2 else url2)
           in url3)"

section \<open>urllib.parse.urlparse\<close>

text \<open>
  \<open>urlparse\<close> is the standard library's, not the repository's; it is modelled after
  CPython 3.10's \<open>urlsplit\<close> and \<open>urlparse\<close> for the three parts the repository reads
  (scheme, netloc, path). Tab, carriage return and line feed are removed; a scheme is
  split off when the text before the first colon is non-empty and made of scheme
  characters; an authority follows a leading \<open>//\<close> and ends at the first of \<open>/ ? #\<close>;
  an authority with one square bracket and not the other raises \<open>ValueError\<close>; fragment,
  query and parameters are cut from the path.

  CPython 3.11.4 and later differ on three kinds of input: they strip leading control
  characters and spaces, take a scheme only when it starts with an ASCII letter, and
  raise \<open>ValueError\<close> on a bracketed host that is no IP address. The URLs on which the
  functions are evaluated below are of none of these kinds.
\<close>

record url_parts =
  scheme :: string
  netloc :: string
  path :: string

definition is_scheme_char :: "char \<Rightarrow> bool" where
  "is_scheme_char c = (c \<in> set
     ''abcdefghijklmnopqrstuvwxyzABCDEFGHIJKLMNOPQRSTUVWXYZ0123456789+-.'')"

definition uses_params :: "string list" where
  "uses_params = ['''', ''ftp'', ''hdl'', ''prospero'', ''http'', ''imap'', ''https'',
     ''shttp'', ''rtsp'', ''rtspu'', ''sip'', ''sips'', ''mms'', ''sftp'', ''tel'']"

definition splitparams :: "string \<Rightarrow> string" where
  \<comment> \<open>\<open>_splitparams(url)[0]\<close>: the path without the parameters of its last segment.\<close>
  "splitparams url =
     (if CHR ''/'' \<in> set url
      then (let seg = after_last CHR ''/'' url;
                k = length url - length seg
            in if CHR '';'' \<in> set seg
               then take (k + length (before_first CHR '';'' seg)) url else url)
      else before_first CHR '';'' url)"

definition urlparse :: "string \<Rightarrow> py_error + url_parts" where
  "urlparse url0 =
     (let url = filter (\<lambda>c. c \<notin> set [CHR 0x09, CHR 0x0D, CHR 0x0A]) url0;
          pre = before_first CHR '':'' url;
          has_scheme = (CHR '':'' \<in> set url \<and> pre \<noteq> [] \<and> list_all is_scheme_char pre);
          sch = (if has_scheme then lower pre else []);
          url1 = (if has_scheme then drop (length pre + 1) url else url);
          has_netloc = (take 2 url1 = ''//'');
          loc = (if has_netloc
                 then takeWhile (\<lambda>c. c \<notin> set ''/?#'') (drop 2 url1) else []);
          url2 = (if has_netloc then drop (2 + length loc) url1 else url1)
      in if (CHR ''['' \<in> set loc \<and> CHR '']'' \<notin> set loc) \<or>
            (CHR '']'' \<in> set loc \<and> CHR ''['' \<notin> set loc)
         then Inl ValueError
         else let url3 = before_first CHR ''?'' (before_first CHR ''#'' url2);
                  url4 = (if sch \<in> set uses_params \<and> CHR '';'' \<in> set url3
                          then splitparams url3 else url3)
              in Inr \<lparr>scheme = sch, netloc = loc, path = url4\<rparr>)"

section \<open>Domain for deduplication\<close>

definition extract_domain :: "string \<Rightarrow> string" where
  \<comment> \<open>\<open>utils/places.py: _extract_domain\<close>. \<open>parsed.netloc or parsed.path\<close>, lower-cased,
      with \<open>replace("www.", "")\<close>; the URL itself when \<open>urlparse\<close> raises.\<close>
  "extract_domain url =
     (case urlparse url of
        Inl e \<Rightarrow> url
      | Inr parsed \<Rightarrow>
          (let host = (if netloc parsed \<noteq> [] then netloc parsed else path parsed)
           in remove_all ''www.'' (lower host)))"

definition get_domain_for_dedup :: "string \<Rightarrow> string" where
  \<comment> \<open>\<open>utils/places.py: get_domain_for_dedup\<close>\<close>
  "get_domain_for_dedup url = extract_domain url"

definition osm_get_domain :: "string \<Rightarrow> string" where
  \<comment> \<open>\<open>utils/osm_places.py: get_domain_for_dedup\<close>, imported by \<open>main.py\<close> as
      \<open>osm_get_domain\<close>.\<close>
  "osm_get_domain url =
     (case urlparse url of
        Inl e \<Rightarrow> url
      | Inr parsed \<Rightarrow>
          remove_all ''www.''
            (lower (if netloc parsed \<noteq> [] then netloc parsed else path parsed)))"

section \<open>Email validity (utils/email_extractor.py)\<close>

definition INVALID_EMAIL_DOMAINS :: "string list" where
  "INVALID_EMAIL_DOMAINS = [''example.com'', ''example.org'', ''example.net'', ''test.com'',
     ''placeholder.com'', ''email.com'', ''domain.com'', ''sentry.io'', ''wixpress.com'',
     ''sentry.wixpress.com'', ''sentry-next.wixpress.com'', ''yoursite.com'',
     ''youremail.com'']"

definition INVALID_EMAIL_DOMAIN_SUFFIXES :: "string list" where
  "INVALID_EMAIL_DOMAIN_SUFFIXES = [''.wixpress.com'', ''.sentry.io'']"

definition is_hex_char :: "char \<Rightarrow> bool" where
  \<comment> \<open>\<open>[a-f0-9]\<close> under \<open>re.IGNORECASE\<close>\<close>
  "is_hex_char c = (c \<in> set ''0123456789abcdefABCDEF'')"

definition HEX_ID_PATTERN_match :: "string \<Rightarrow> bool" where
  \<comment> \<open>\<open>HEX_ID_PATTERN.match(s)\<close> for \<open>^[a-f0-9]{20,}$\<close>: at least twenty hex digits up to
      the end of \<open>s\<close>, or up to one final line feed (where \<open>$\<close> matches as well).\<close>
  "HEX_ID_PATTERN_match s =
     (let h = takeWhile is_hex_char s; r = drop (length h) s
      in 20 \<le> length h \<and> (r = [] \<or> r = [CHR 0x0A]))"

definition is_valid_email :: "string \<Rightarrow> bool" where
  "is_valid_email email =
     (if email = [] \<or> 254 < length email then False
      else let email_lower = strip (lower email) in
        if CHR ''@'' \<notin> set email_lower then False
        else let local = before_last CHR ''@'' email_lower;
                 domain = after_last CHR ''@'' email_lower in
          if domain \<in> set INVALID_EMAIL_DOMAINS then False
          else if list_ex (\<lambda>suffix. endswith domain suffix \<or> domain = strip_chars ''.'' suffix)
                    INVALID_EMAIL_DOMAIN_SUFFIXES then False
          else if HEX_ID_PATTERN_match local then False
          else if startswith email ''data:'' \<or> contains email ''.png'' \<or> contains email ''.jpg''
          then False
          else True)"

section \<open>The email harvester (utils/email_extractor.py)\<close>

text \<open>
  The harvester talks to the network and calls two library functions the repository does
  not define. They are the fields of \<open>web\<close>:
  \<^item> \<open>read_robots robots_url\<close> is \<open>RobotFileParser.read\<close> on that address: \<open>None\<close> when it
    raises, else the parsed policy \<open>can_fetch user_agent url\<close>;
  \<^item> \<open>http_get url\<close> is the page's text, \<open>None\<close> when the request or
    \<open>raise_for_status\<close> raises;
  \<^item> \<open>urljoin\<close> is \<open>urllib.parse.urljoin\<close>;
  \<^item> \<open>finditer html\<close> is the list of substrings \<open>EMAIL_PATTERN.finditer(html)\<close> yields.

  Every function that touches the network returns its value together with the list of
  requests it made, in order. The length of a sleep is not modelled.
\<close>

record web =
  read_robots :: "string \<Rightarrow> (string \<Rightarrow> string \<Rightarrow> bool) option"
  http_get :: "string \<Rightarrow> string option"
  urljoin :: "string \<Rightarrow> string \<Rightarrow> string"
  finditer :: "string \<Rightarrow> string list"

datatype request = Robots_fetch string | Page_fetch string | Sleep

definition USER_AGENT :: string where
  "USER_AGENT = ''LeadDatasetBuilder/1.0''"

definition check_robots_allowed :: "web \<Rightarrow> string \<Rightarrow> bool \<times> request list" where
  \<comment> \<open>\<open>_check_robots_allowed\<close>: any exception inside the \<open>try\<close> answers \<open>True\<close>.\<close>
  "check_robots_allowed w url =
     (case urlparse url of
        Inl e \<Rightarrow> (True, [])
      | Inr parsed \<Rightarrow>
          (let base = scheme parsed @ ''://'' @ netloc parsed;
               robots_url = urljoin w base ''/robots.txt''
           in case read_robots w robots_url of
                None \<Rightarrow> (True, [Robots_fetch robots_url])
              | Some can_fetch \<Rightarrow> (can_fetch USER_AGENT url, [Robots_fetch robots_url])))"

definition fetch_page :: "web \<Rightarrow> string \<Rightarrow> string option" where
  \<comment> \<open>\<open>_fetch_page\<close>: the text, \<open>None\<close> on any failure.\<close>
  "fetch_page w url = (case http_get w url of None \<Rightarrow> None | Some text \<Rightarrow> Some text)"

definition py_take :: "int \<Rightarrow> 'a list \<Rightarrow> 'a list" where
  \<comment> \<open>\<open>xs[:n]\<close>: a negative \<open>n\<close> counts from the end.\<close>
  "py_take n xs = (if 0 \<le> n then take (nat n) xs else take (length xs - nat (- n)) xs)"

fun unique_urls :: "string list \<Rightarrow> string set \<Rightarrow> string list" where
  "unique_urls [] seen = []"
| "unique_urls (u # us) seen =
     (let norm = (if rstrip_chars ''/'' u \<noteq> [] then rstrip_chars ''/'' u else u)
      in if norm \<notin> seen then u # unique_urls us (insert norm seen)
         else unique_urls us seen)"

definition get_candidate_urls :: "web \<Rightarrow> string \<Rightarrow> int \<Rightarrow> py_error + string list" where
  \<comment> \<open>\<open>_get_candidate_urls\<close>: \<open>urlparse\<close> is called outside any \<open>try\<close>, so its
      \<open>ValueError\<close> leaves the function.\<close>
  "get_candidate_urls w website max_pages =
     (case urlparse website of
        Inl e \<Rightarrow> Inl e
      | Inr parsed \<Rightarrow>
          (let base = scheme parsed @ ''://'' @ netloc parsed;
               base_path = (if rstrip_chars ''/'' (path parsed) \<noteq> []
                            then rstrip_chars ''/'' (path parsed) else ''/'');
               candidates = [urljoin w base base_path, urljoin w base ''/kontakt'',
                             urljoin w base ''/contact'', urljoin w base ''/impressum'']
           in Inr (py_take max_pages (unique_urls candidates {}))))"

fun html_matches :: "string list \<Rightarrow> string set \<Rightarrow> (string \<times> string) list" where
  \<comment> \<open>The loop of \<open>extract_emails_from_html\<close> over the matches, \<open>found\<close> as it stands.\<close>
  "html_matches [] found = []"
| "html_matches (m # ms) found =
     (let email = strip m
      in if CHR '' '' \<in> set email \<or> CHR 0x0A \<in> set email then html_matches ms found
         else if email \<in> found then html_matches ms found
         else if is_valid_email email
         then (email, ''page'') # html_matches ms (insert email found)
         else html_matches ms found)"

definition extract_emails_from_html :: "web \<Rightarrow> string \<Rightarrow> (string \<times> string) list" where
  "extract_emails_from_html w html =
     (if html = [] then [] else html_matches (finditer w html) {})"

fun show_nat :: "nat \<Rightarrow> string" where
  \<comment> \<open>The decimal digits of a number, as an f-string prints it.\<close>
  "show_nat n =
     (if n < 10 then [char_of (48 + n)] else show_nat (n div 10) @ [char_of (48 + n mod 10)])"

definition page_type :: "nat \<Rightarrow> string" where
  "page_type i = (if i = 0 then ''homepage'' else ''page_'' @ show_nat i)"

fun fetch_pages :: "web \<Rightarrow> nat \<Rightarrow> string list \<Rightarrow> (string \<times> string) list \<times> request list" where
  \<comment> \<open>The loop over \<open>enumerate(urls)\<close>, from index \<open>i\<close>: the pairs appended to
      \<open>all_emails\<close>, and the requests made.\<close>
  "fetch_pages w i [] = ([], [])"
| "fetch_pages w i (url # urls) =
     (let pause = (if 0 < i then [Sleep] else []);
          found = (case fetch_page w url of
                     None \<Rightarrow> []
                   | Some html \<Rightarrow>
                       if html = [] then []
                       else map (\<lambda>(email, _). (email, page_type i))
                              (extract_emails_from_html w html));
          (more, reqs) = fetch_pages w (Suc i) urls
      in (found @ more, pause @ [Page_fetch url] @ reqs))"

fun dedup_emails :: "(string \<times> string) list \<Rightarrow> string set \<Rightarrow> string list \<times> string list" where
  \<comment> \<open>The last loop of \<open>extract_emails_from_website\<close>: \<open>unique_emails\<close> and
      \<open>source_pages\<close>.\<close>
  "dedup_emails [] seen_emails = ([], [])"
| "dedup_emails ((email, src) # rest) seen_emails =
     (if email \<notin> seen_emails
      then (let (unique_emails, source_pages) = dedup_emails rest (insert email seen_emails)
            in (email # unique_emails, src # source_pages))
      else dedup_emails rest seen_emails)"

definition extract_emails_from_website ::
  "web \<Rightarrow> string \<Rightarrow> int \<Rightarrow> (py_error + string list \<times> string) \<times> request list" where
  "extract_emails_from_website w website_url max_pages =
     (if website_url = [] \<or> \<not> is_http_prefixed website_url then (Inr ([], []), [])
      else let (allowed, reqs0) = check_robots_allowed w website_url in
        if \<not> allowed then (Inr ([], ''robots_blocked''), reqs0)
        else (case get_candidate_urls w website_url max_pages of
                Inl e \<Rightarrow> (Inl e, reqs0)
              | Inr urls \<Rightarrow>
                  (let (all_emails, reqs1) = fetch_pages w 0 urls;
                       (unique_emails, source_pages) = dedup_emails all_emails {};
                       source_str = (if source_pages \<noteq> [] then join '','' source_pages else [])
                   in (Inr (unique_emails, source_str), reqs0 @ reqs1))))"

definition page_fetches :: "request list \<Rightarrow> string list" where
  \<comment> \<open>The content pages among the requests.\<close>
  "page_fetches reqs = concat (map (\<lambda>r. case r of Page_fetch u \<Rightarrow> [u] | _ \<Rightarrow> []) reqs)"

section \<open>Places and leads (main.py)\<close>

text \<open>
  \<open>PlaceResult\<close> (utils/places.py) and \<open>OSMPlace\<close> (utils/osm_places.py) declare the same
  eleven fields, so one record stands for both. A lead is a Python \<open>dict\<close> from column
  names to values: an association list, read with \<open>map_of\<close>. A \<open>float\<close> is carried as a
  real number and never computed with.
\<close>

datatype pyval = PNone | PStr string | PInt int | PFloat real

type_synonym lead = "(string \<times> pyval) list"

record place =
  place_id :: string
  name :: string
  formatted_address :: string
  latitude :: real
  longitude :: real
  website :: string
  phone :: string
  google_maps_url :: string
  rating :: "real option"
  user_ratings_total :: "int option"
  types :: "string list"

definition place_owner :: "place \<Rightarrow> string option" where
  \<comment> \<open>The attribute \<open>owner\<close> of a place: neither dataclass declares it and nothing in the
      repository sets it, so it is absent on every place.\<close>
  "place_owner p = None"

definition GMAIL_DOMAINS :: "string list" where
  "GMAIL_DOMAINS = [''gmail.com'', ''googlemail.com'']"

definition gmail_addresses_from_emails :: "string list \<Rightarrow> string" where
  "gmail_addresses_from_emails emails =
     (let gmails = filter (\<lambda>e. after_last CHR ''@'' (lower (strip e)) \<in> set GMAIL_DOMAINS) emails
      in if gmails \<noteq> [] then join ''; '' gmails else [])"

definition place_to_lead :: "place \<Rightarrow> string \<Rightarrow> string \<Rightarrow> lead" where
  \<comment> \<open>\<open>getattr(place, "owner", "")\<close> reads the absent attribute as the empty string.\<close>
  "place_to_lead p niche city =
     (let reviews = (case user_ratings_total p of Some n \<Rightarrow> PInt n | None \<Rightarrow> PStr []);
          owner = strip (case place_owner p of None \<Rightarrow> [] | Some s \<Rightarrow> s);
          owner_full = (if owner \<noteq> [] then owner else ''Nill'')
      in [(''niche'', PStr niche),
          (''city'', PStr city),
          (''business_name'', PStr (name p)),
          (''first_name'', PStr owner_full),
          (''reviews_count'', reviews),
          (''formatted_address'', PStr (formatted_address p)),
          (''latitude'', PFloat (latitude p)),
          (''longitude'', PFloat (longitude p)),
          (''phone'', PStr (if phone p \<noteq> [] then phone p else ''Nill'')),
          (''google_maps_url'', PStr (google_maps_url p)),
          (''website_url'', PStr (if website p \<noteq> [] then website p else ''Nill'')),
          (''rating'', (case rating p of Some r \<Rightarrow> PFloat r | None \<Rightarrow> PStr [])),
          (''ratings_count'', reviews),
          (''place_id'', PStr (place_id p)),
          (''emails_found'', PStr ''Nill''),
          (''email_source_page'', PStr []),
          (''gmail_addresses'', PStr [])])"

definition osm_place_to_lead :: "place \<Rightarrow> string \<Rightarrow> string \<Rightarrow> py_error + lead" where
  \<comment> \<open>\<open>place.owner\<close> is read without a default: on a place with no such attribute the
      read raises \<open>AttributeError\<close> before the dict is built.\<close>
  "osm_place_to_lead p niche city =
     (case place_owner p of
        None \<Rightarrow> Inl AttributeError
      | Some s \<Rightarrow>
          (let owner = strip s;
               owner_full = (if owner \<noteq> [] then owner else ''Nill'')
           in Inr [(''niche'', PStr niche),
                   (''city'', PStr city),
                   (''business_name'', PStr (name p)),
                   (''first_name'', PStr owner_full),
                   (''reviews_count'', PStr []),
                   (''formatted_address'', PStr (formatted_address p)),
                   (''latitude'', PFloat (latitude p)),
                   (''longitude'', PFloat (longitude p)),
                   (''phone'', PStr (if phone p \<noteq> [] then phone p else ''Nill'')),
                   (''google_maps_url'', PStr (google_maps_url p)),
                   (''website_url'', PStr (if website p \<noteq> [] then website p else ''Nill'')),
                   (''rating'', PStr []),
                   (''ratings_count'', PStr []),
                   (''place_id'', PStr (place_id p)),
                   (''emails_found'', PStr ''Nill''),
                   (''email_source_page'', PStr []),
                   (''gmail_addresses'', PStr [])]))"

fun dict_set :: "lead \<Rightarrow> string \<Rightarrow> pyval \<Rightarrow> lead" where
  \<comment> \<open>\<open>lead[k] = v\<close>\<close>
  "dict_set [] k v = [(k, v)]"
| "dict_set ((k', v') # kvs) k v =
     (if k' = k then (k, v) # kvs else (k', v') # dict_set kvs k v)"

definition with_emails :: "lead \<Rightarrow> string list \<Rightarrow> string \<Rightarrow> lead" where
  \<comment> \<open>The three assignments that follow a call of \<open>extract_emails_from_website\<close>.\<close>
  "with_emails l emails src =
     dict_set
       (dict_set
          (dict_set l ''emails_found'' (PStr (if emails \<noteq> [] then join ''; '' emails else ''Nill'')))
          ''email_source_page'' (PStr src))
       ''gmail_addresses'' (PStr (gmail_addresses_from_emails emails))"

section \<open>Files, the checkpoint store and the exporter (main.py)\<close>

text \<open>
  A path is a string and the file system a map from paths to contents. \<open>json.dump\<close> and
  \<open>json.load\<close> are the standard library's: a checkpoint file is held as the JSON
  document it contains, an object in which each of the three keys \<open>leads\<close>,
  \<open>seen_place_ids\<close> and \<open>seen_domains\<close> is present or not; any other content of a file is
  \<open>Unreadable\<close> to \<open>json.load\<close>, as a CSV file is. Creating a directory and writing a file
  succeed. \<open>list(seen)\<close> lists a set in an order Python does not fix: the order is the
  parameter \<open>list_of_set\<close> of the environment.
\<close>

record checkpoint_doc =
  doc_leads :: "lead list option"
  doc_seen_place_ids :: "string list option"
  doc_seen_domains :: "string list option"

datatype file_content = Unreadable | Checkpoint_file checkpoint_doc | Csv_file "string list" "pyval list list"

type_synonym files = "string \<Rightarrow> file_content option"

definition OUTPUT_DIR :: string where
  "OUTPUT_DIR = ''outputs''"

definition CHECKPOINT_FILE :: string where
  "CHECKPOINT_FILE = OUTPUT_DIR @ ''/checkpoint.json''"

definition OUTPUT_CSV :: string where
  "OUTPUT_CSV = OUTPUT_DIR @ ''/leads_de_bw.csv''"

definition CHECKPOINT_INTERVAL :: nat where
  "CHECKPOINT_INTERVAL = 100"

definition writable_checkpoint_path :: "bool \<Rightarrow> string option \<Rightarrow> string" where
  \<comment> \<open>\<open>_writable_checkpoint_path\<close>; the first argument is whether \<open>VERCEL\<close> is set.\<close>
  "writable_checkpoint_path on_vercel requested =
     (case requested of
        Some p \<Rightarrow> p
      | None \<Rightarrow> if on_vercel then ''/tmp/checkpoint.json'' else CHECKPOINT_FILE)"

definition load_checkpoint ::
  "bool \<Rightarrow> files \<Rightarrow> string option \<Rightarrow> lead list \<times> string set \<times> string set" where
  "load_checkpoint on_vercel fs checkpoint_file =
     (let cf = writable_checkpoint_path on_vercel checkpoint_file
      in case fs cf of
           None \<Rightarrow> ([], {}, {})
         | Some Unreadable \<Rightarrow> ([], {}, {})
         | Some (Csv_file header rows) \<Rightarrow> ([], {}, {})
         | Some (Checkpoint_file data) \<Rightarrow>
             ((case doc_leads data of None \<Rightarrow> [] | Some ls \<Rightarrow> ls),
              set (case doc_seen_place_ids data of None \<Rightarrow> [] | Some xs \<Rightarrow> xs),
              set (case doc_seen_domains data of None \<Rightarrow> [] | Some xs \<Rightarrow> xs)))"

definition save_checkpoint ::
  "bool \<Rightarrow> (string set \<Rightarrow> string list) \<Rightarrow> lead list \<Rightarrow> string set \<Rightarrow> string set \<Rightarrow>
   string option \<Rightarrow> files \<Rightarrow> files" where
  "save_checkpoint on_vercel as_list ls seen_ids seen_doms checkpoint_file fs =
     (let cf = writable_checkpoint_path on_vercel checkpoint_file;
          data = \<lparr>doc_leads = Some ls,
                  doc_seen_place_ids = Some (as_list seen_ids),
                  doc_seen_domains = Some (as_list seen_doms)\<rparr>
      in fs(cf \<mapsto> Checkpoint_file data))"

definition COLUMNS :: "string list" where
  "COLUMNS = [''niche'', ''city'', ''business_name'', ''phone'', ''google_maps_url'',
     ''website_url'', ''emails_found'']"

definition truthy :: "pyval \<Rightarrow> bool" where
  \<comment> \<open>Python's truth value of a lead's field.\<close>
  "truthy v = (case v of PNone \<Rightarrow> False | PStr s \<Rightarrow> s \<noteq> [] | PInt n \<Rightarrow> n \<noteq> 0
                 | PFloat r \<Rightarrow> r \<noteq> 0)"

definition str_strip_is :: "pyval \<Rightarrow> string \<Rightarrow> bool" where
  \<comment> \<open>\<open>str(v).strip() == t\<close> for a \<open>t\<close> that is no rendering of \<open>None\<close> or of a number:
      only a string can be equal to it.\<close>
  "str_strip_is v t = (case v of PStr s \<Rightarrow> strip s = t | _ \<Rightarrow> False)"

definition dict_get :: "lead \<Rightarrow> string \<Rightarrow> pyval \<Rightarrow> pyval" where
  \<comment> \<open>\<open>lead.get(k, default)\<close>; \<open>lead.get(k)\<close> is \<open>dict_get lead k PNone\<close>.\<close>
  "dict_get l k d = (case map_of l k of None \<Rightarrow> d | Some v \<Rightarrow> v)"

definition exportable :: "lead \<Rightarrow> bool" where
  \<comment> \<open>The condition of the list comprehension in \<open>export_csv\<close>.\<close>
  "exportable l =
     (truthy (dict_get l ''emails_found'' PNone)
      \<and> \<not> str_strip_is (dict_get l ''emails_found'' (PStr [])) ''Nill''
      \<and> truthy (dict_get l ''website_url'' PNone)
      \<and> \<not> str_strip_is (dict_get l ''website_url'' (PStr [])) ''Nill'')"

definition csv_row :: "string list \<Rightarrow> lead \<Rightarrow> pyval list" where
  \<comment> \<open>\<open>csv.DictWriter\<close> with \<open>extrasaction="ignore"\<close>: the fields of the columns, in their
      order, the empty string for a missing one.\<close>
  "csv_row columns l = map (\<lambda>c. dict_get l c (PStr [])) columns"

definition export_csv :: "files \<Rightarrow> lead list \<Rightarrow> string \<Rightarrow> bool \<Rightarrow> files" where
  "export_csv fs ls output_path require_email_and_website =
     (let rows = (if require_email_and_website then filter exportable ls else ls)
      in fs(output_path \<mapsto> Csv_file COLUMNS (map (csv_row COLUMNS) rows)))"

section \<open>The collection orchestrator (main.py)\<close>

text \<open>
  What a run meets outside the repository is the environment:
  \<^item> \<open>on_vercel\<close>: whether the variable \<open>VERCEL\<close> is set;
  \<^item> \<open>list_of_set\<close>: the order in which \<open>list(s)\<close> lists a set;
  \<^item> \<open>google_setup\<close>: the exception \<open>load_config\<close> or \<open>googlemaps.Client\<close> ends with, if any;
  \<^item> \<open>collect_places_for_niche_city\<close>, \<open>collect_osm_places_for_niche_city\<close>: the places
    the source adapter returns for a niche and a city, \<open>None\<close> when the call raises;
  \<^item> \<open>the_web\<close>: the network the harvester sees;
  \<^item> \<open>as_completed\<close>: the order in which the futures of one batch complete.

  The two lists, the two sets and the file system that a run mutates are the fields of
  \<open>state\<close>; every function takes the state and returns the new one.
\<close>

record env =
  on_vercel :: bool
  list_of_set :: "string set \<Rightarrow> string list"
  google_setup :: "py_error option"
  collect_places_for_niche_city :: "string \<Rightarrow> string \<Rightarrow> place list option"
  collect_osm_places_for_niche_city :: "string \<Rightarrow> string \<Rightarrow> place list option"
  the_web :: web
  as_completed :: "(place \<times> string \<times> string) list \<Rightarrow> (place \<times> string \<times> string) list"

record run_cfg =
  max_leads :: int
  extract_emails :: bool
  checkpoint_file :: "string option"

record state =
  leads :: "lead list"
  seen_place_ids :: "string set"
  seen_domains :: "string set"
  the_files :: files

definition CITIES :: "string list" where
  "CITIES = [''Mannheim'', ''Heidelberg'', ''Heilbronn'', ''Pforzheim'', ''Ulm'',
     ''Reutlingen'', ''T'' @ [CHR 0xFC] @ ''bingen'', ''Esslingen am Neckar'']"

definition NICHES :: "string list" where
  "NICHES = [''Physical therapists'', ''Dentists'', ''Auto repair shops'',
     ''Moving companies'', ''Cleaning companies'', ''Beauty & wellness (premium)'',
     ''Real estate agents'', ''Lawyers / tax advisors'', ''Pet services'',
     ''Plumbing & heating'', ''Gardening & landscaping'']"

definition budget_reached :: "run_cfg \<Rightarrow> state \<Rightarrow> bool" where
  \<comment> \<open>\<open>len(leads) >= max_leads\<close>\<close>
  "budget_reached cfg st = (max_leads cfg \<le> int (length (leads st)))"

definition checkpoint_now :: "env \<Rightarrow> run_cfg \<Rightarrow> state \<Rightarrow> state" where
  "checkpoint_now env cfg st =
     st\<lparr>the_files := save_checkpoint (on_vercel env) (list_of_set env) (leads st)
            (seen_place_ids st) (seen_domains st) (checkpoint_file cfg) (the_files st)\<rparr>"

definition periodic_checkpoint :: "env \<Rightarrow> run_cfg \<Rightarrow> state \<Rightarrow> state" where
  \<comment> \<open>\<open>if len(leads) % CHECKPOINT_INTERVAL == 0: save_checkpoint(...)\<close>\<close>
  "periodic_checkpoint env cfg st =
     (if length (leads st) mod CHECKPOINT_INTERVAL = 0 then checkpoint_now env cfg st else st)"

definition harvest :: "env \<Rightarrow> string \<Rightarrow> py_error + string list \<times> string" where
  \<comment> \<open>\<open>extract_emails_from_website(place.website, sleep_seconds=...)\<close>, two pages at most.\<close>
  "harvest env url = fst (extract_emails_from_website (the_web env) url 2)"

subsection \<open>The Google source\<close>

fun google_places_loop ::
  "env \<Rightarrow> run_cfg \<Rightarrow> string \<Rightarrow> string \<Rightarrow> place list \<Rightarrow> state \<Rightarrow> state" where
  \<comment> \<open>\<open>for place in places\<close> of \<open>_run_google\<close>\<close>
  "google_places_loop env cfg niche city [] st = st"
| "google_places_loop env cfg niche city (p # ps) st =
     (if place_id p \<in> seen_place_ids st then google_places_loop env cfg niche city ps st
      else let domain = get_domain_for_dedup (website p) in
        if domain \<in> seen_domains st then google_places_loop env cfg niche city ps st
        else let st1 = st\<lparr>seen_place_ids := insert (place_id p) (seen_place_ids st),
                           seen_domains := insert domain (seen_domains st)\<rparr>;
                 lead0 = place_to_lead p niche city;
                 lead1 = (if extract_emails cfg \<and> website p \<noteq> []
                          then (case harvest env (website p) of
                                  Inl e \<Rightarrow> lead0
                                | Inr (emails, src) \<Rightarrow> with_emails lead0 emails src)
                          else lead0);
                 st2 = periodic_checkpoint env cfg (st1\<lparr>leads := leads st1 @ [lead1]\<rparr>)
             in if budget_reached cfg st2 then st2
                else google_places_loop env cfg niche city ps st2)"

definition google_pair :: "env \<Rightarrow> run_cfg \<Rightarrow> string \<Rightarrow> string \<Rightarrow> state \<Rightarrow> state" where
  \<comment> \<open>The \<open>try\<close> block of one niche and city: an exception of the adapter is logged.\<close>
  "google_pair env cfg niche city st =
     (case collect_places_for_niche_city env niche city of
        None \<Rightarrow> st
      | Some places \<Rightarrow> google_places_loop env cfg niche city places st)"

fun google_cities_loop ::
  "env \<Rightarrow> run_cfg \<Rightarrow> string \<Rightarrow> string list \<Rightarrow> state \<Rightarrow> state" where
  "google_cities_loop env cfg niche [] st = st"
| "google_cities_loop env cfg niche (city # cities) st =
     (if budget_reached cfg st then st
      else google_cities_loop env cfg niche cities (google_pair env cfg niche city st))"

fun google_niches_loop ::
  "env \<Rightarrow> run_cfg \<Rightarrow> string list \<Rightarrow> string list \<Rightarrow> state \<Rightarrow> state" where
  "google_niches_loop env cfg [] cities st = st"
| "google_niches_loop env cfg (niche # niches) cities st =
     (if budget_reached cfg st then st
      else google_niches_loop env cfg niches cities
             (google_cities_loop env cfg niche cities st))"

definition run_google ::
  "env \<Rightarrow> run_cfg \<Rightarrow> string list \<Rightarrow> string list \<Rightarrow> state \<Rightarrow> py_error + state" where
  \<comment> \<open>\<open>_run_google\<close>; an empty list of niches or cities stands for \<open>None\<close> as well, and
      both select the default.\<close>
  "run_google env cfg niches cities st =
     (case google_setup env of
        Some e \<Rightarrow> Inl e
      | None \<Rightarrow>
          Inr (google_niches_loop env cfg (if niches \<noteq> [] then niches else NICHES)
                 (if cities \<noteq> [] then cities else CITIES) st))"

subsection \<open>The OpenStreetMap source\<close>

fun osm_places_loop ::
  "run_cfg \<Rightarrow> string \<Rightarrow> string \<Rightarrow> place list \<Rightarrow> state \<Rightarrow> (place \<times> string \<times> string) list \<Rightarrow>
   py_error option \<times> state \<times> (place \<times> string \<times> string) list" where
  \<comment> \<open>\<open>for place in places\<close> of \<open>_run_osm\<close>: the exception that ended the loop, if any,
      the state and the candidates.\<close>
  "osm_places_loop cfg niche city [] st candidates = (None, st, candidates)"
| "osm_places_loop cfg niche city (p # ps) st candidates =
     (if place_id p \<in> seen_place_ids st then osm_places_loop cfg niche city ps st candidates
      else let domain = (if website p \<noteq> [] then osm_get_domain (website p) else []) in
        if domain \<noteq> [] \<and> domain \<in> seen_domains st
        then osm_places_loop cfg niche city ps st candidates
        else let st1 = st\<lparr>seen_place_ids := insert (place_id p) (seen_place_ids st),
                           seen_domains := (if domain \<noteq> [] then insert domain (seen_domains st)
                                            else seen_domains st)\<rparr>
             in if extract_emails cfg \<and> website p \<noteq> []
                then (if budget_reached cfg st1
                      then (None, st1, candidates @ [(p, niche, city)])
                      else osm_places_loop cfg niche city ps st1
                             (candidates @ [(p, niche, city)]))
                else (case osm_place_to_lead p niche city of
                        Inl e \<Rightarrow> (Some e, st1, candidates)
                      | Inr l \<Rightarrow>
                          (let st2 = st1\<lparr>leads := leads st1 @ [l]\<rparr>
                           in if budget_reached cfg st2 then (None, st2, candidates)
                              else osm_places_loop cfg niche city ps st2 candidates)))"

definition process_place_emails ::
  "env \<Rightarrow> place \<Rightarrow> string \<Rightarrow> string \<Rightarrow> py_error + lead \<times> bool" where
  \<comment> \<open>\<open>_process_place_emails\<close>: the lead is built before the \<open>try\<close>.\<close>
  "process_place_emails env p niche city =
     (case osm_place_to_lead p niche city of
        Inl e \<Rightarrow> Inl e
      | Inr l \<Rightarrow>
          if website p = [] then Inr (l, False)
          else (case harvest env (website p) of
                  Inl e \<Rightarrow> Inr (l, False)
                | Inr (emails, src) \<Rightarrow> Inr (with_emails l emails src, emails \<noteq> [])))"

fun osm_collect_results ::
  "env \<Rightarrow> run_cfg \<Rightarrow> (place \<times> string \<times> string) list \<Rightarrow> state \<Rightarrow> state" where
  \<comment> \<open>\<open>for future in as_completed(futures)\<close>: an exception of \<open>future.result()\<close> is
      logged and the lead is not appended.\<close>
  "osm_collect_results env cfg [] st = st"
| "osm_collect_results env cfg ((p, niche, city) # rest) st =
     (if budget_reached cfg st then st
      else (case process_place_emails env p niche city of
              Inl e \<Rightarrow> osm_collect_results env cfg rest st
            | Inr (l, has_email) \<Rightarrow>
                osm_collect_results env cfg rest
                  (periodic_checkpoint env cfg (st\<lparr>leads := leads st @ [l]\<rparr>))))"

definition osm_pair :: "env \<Rightarrow> run_cfg \<Rightarrow> string \<Rightarrow> string \<Rightarrow> state \<Rightarrow> state" where
  \<comment> \<open>The \<open>try\<close> block of one niche and city. An exception of the adapter or of the loop
      over the places is logged; what the loop did to the sets before stays done. The
      \<open>break\<close> that ends the block when the budget is reached is the test the loop over
      the cities makes before its next city.\<close>
  "osm_pair env cfg niche city st =
     (case collect_osm_places_for_niche_city env niche city of
        None \<Rightarrow> st
      | Some places \<Rightarrow>
          (case osm_places_loop cfg niche city places st [] of
             (Some e, st1, candidates) \<Rightarrow> st1
           | (None, st1, candidates) \<Rightarrow>
               if candidates = [] then periodic_checkpoint env cfg st1
               else osm_collect_results env cfg (as_completed env candidates) st1))"

fun osm_cities_loop ::
  "env \<Rightarrow> run_cfg \<Rightarrow> string \<Rightarrow> string list \<Rightarrow> state \<Rightarrow> state" where
  "osm_cities_loop env cfg niche [] st = st"
| "osm_cities_loop env cfg niche (city # cities) st =
     (if budget_reached cfg st then st
      else osm_cities_loop env cfg niche cities (osm_pair env cfg niche city st))"

fun osm_niches_loop ::
  "env \<Rightarrow> run_cfg \<Rightarrow> string list \<Rightarrow> string list \<Rightarrow> state \<Rightarrow> state" where
  "osm_niches_loop env cfg [] cities st = st"
| "osm_niches_loop env cfg (niche # niches) cities st =
     (if budget_reached cfg st then st
      else osm_niches_loop env cfg niches cities (osm_cities_loop env cfg niche cities st))"

definition run_osm ::
  "env \<Rightarrow> run_cfg \<Rightarrow> string list \<Rightarrow> string list \<Rightarrow> state \<Rightarrow> state" where
  "run_osm env cfg niches cities st =
     osm_niches_loop env cfg (if niches \<noteq> [] then niches else NICHES)
       (if cities \<noteq> [] then cities else CITIES) st"

subsection \<open>The two entry points\<close>

datatype data_source = Google | Osm

record cli_args =
  source :: data_source
  arg_max_leads :: int
  arg_extract_emails :: bool
  arg_output :: string
  clear_checkpoint :: bool

definition clear_file :: "bool \<Rightarrow> string \<Rightarrow> files \<Rightarrow> files" where
  \<comment> \<open>\<open>if clear and path.exists(): path.unlink()\<close>\<close>
  "clear_file clear p fs = (if clear \<and> fs p \<noteq> None then fs(p := None) else fs)"

definition finish :: "env \<Rightarrow> run_cfg \<Rightarrow> string \<Rightarrow> state \<Rightarrow> files" where
  \<comment> \<open>The last two calls of both entry points: \<open>save_checkpoint\<close>, then \<open>export_csv\<close>.\<close>
  "finish env cfg output_path st =
     (let st1 = checkpoint_now env cfg st
      in export_csv (the_files st1) (leads st1) output_path True)"

definition main :: "env \<Rightarrow> cli_args \<Rightarrow> files \<Rightarrow> py_error + files" where
  \<comment> \<open>\<open>main()\<close>, the command line parsed into \<open>args\<close>; it has no \<open>checkpoint_file\<close>.\<close>
  "main env args fs0 =
     (let fs1 = clear_file (clear_checkpoint args) CHECKPOINT_FILE fs0;
          (ls, ids, doms) = load_checkpoint (on_vercel env) fs1 None
      in if arg_max_leads args \<le> int (length ls)
         then Inr (export_csv fs1 ls (arg_output args) True)
         else let cfg = \<lparr>max_leads = arg_max_leads args,
                          extract_emails = arg_extract_emails args,
                          checkpoint_file = None\<rparr>;
                  st0 = \<lparr>leads = ls, seen_place_ids = ids, seen_domains = doms,
                         the_files = fs1\<rparr>
              in case (if source args = Google then run_google env cfg [] [] st0
                       else Inr (run_osm env cfg [] [] st0)) of
                   Inl e \<Rightarrow> Inl e
                 | Inr st \<Rightarrow> Inr (finish env cfg (arg_output args) st))"

definition effective_work_dir :: "env \<Rightarrow> string option \<Rightarrow> string option" where
  \<comment> \<open>\<open>work_dir\<close> after \<open>if work_dir is None and os.environ.get("VERCEL")\<close>.\<close>
  "effective_work_dir env work_dir =
     (if work_dir = None \<and> on_vercel env then Some ''/tmp'' else work_dir)"

definition collection_checkpoint_file :: "env \<Rightarrow> string option \<Rightarrow> string option" where
  \<comment> \<open>\<open>checkpoint_file = out_dir / "checkpoint.json" if work_dir else None\<close>, where
      \<open>out_dir\<close> is the work directory when there is one.\<close>
  "collection_checkpoint_file env work_dir =
     (case effective_work_dir env work_dir of
        Some d \<Rightarrow> Some (d @ ''/checkpoint.json'')
      | None \<Rightarrow> None)"

definition run_collection ::
  "env \<Rightarrow> string list \<Rightarrow> string list \<Rightarrow> int \<Rightarrow> bool \<Rightarrow> data_source \<Rightarrow> string option \<Rightarrow>
   bool \<Rightarrow> string option \<Rightarrow> files \<Rightarrow> py_error + string \<times> files" where
  \<comment> \<open>\<open>run_collection(niches, cities, max_leads, extract_emails, source, output_path,
      clear_checkpoint, work_dir=work_dir)\<close>: the path of the CSV file and the files.\<close>
  "run_collection env niches cities max_l extract src output_path clear work_dir fs0 =
     (if niches = [] \<or> cities = [] then Inl ValueError
      else let out_dir = (case effective_work_dir env work_dir of
                            Some d \<Rightarrow> d | None \<Rightarrow> OUTPUT_DIR);
               output_path1 = (case output_path of Some p \<Rightarrow> p
                               | None \<Rightarrow> out_dir @ ''/leads_export.csv'');
               output_path2 = (if on_vercel env \<and> \<not> contains output_path1 ''/tmp''
                               then out_dir @ ''/'' @ after_last CHR ''/'' output_path1
                               else output_path1);
               cfile = collection_checkpoint_file env work_dir;
               cfg = \<lparr>max_leads = max_l, extract_emails = extract, checkpoint_file = cfile\<rparr>;
               cf = writable_checkpoint_path (on_vercel env) cfile;
               fs1 = clear_file clear cf fs0;
               (ls, ids, doms) = load_checkpoint (on_vercel env) fs1 cfile
           in if max_l \<le> int (length ls) \<and> \<not> (niches \<noteq> [] \<and> cities \<noteq> [])
              then Inr (output_path2, export_csv fs1 ls output_path2 True)
              else let st0 = \<lparr>leads = ls, seen_place_ids = ids, seen_domains = doms,
                              the_files = fs1\<rparr>
                   in case (if src = Google then run_google env cfg niches cities st0
                            else Inr (run_osm env cfg niches cities st0)) of
                        Inl e \<Rightarrow> Inl e
                      | Inr st \<Rightarrow> Inr (output_path2, finish env cfg output_path2 st))"

section \<open>Notions the claims are stated with\<close>

definition robots_disallows :: "web \<Rightarrow> string \<Rightarrow> bool" where
  \<comment> \<open>The robots policy of the URL's site was read and refuses the harvester's user
      agent for this URL.\<close>
  "robots_disallows w url =
     (case urlparse url of
        Inl e \<Rightarrow> False
      | Inr parsed \<Rightarrow>
          (case read_robots w (urljoin w (scheme parsed @ ''://'' @ netloc parsed) ''/robots.txt'') of
             None \<Rightarrow> False
           | Some can_fetch \<Rightarrow> \<not> can_fetch USER_AGENT url))"

definition first_seen :: "web \<Rightarrow> string \<Rightarrow> int \<Rightarrow> string \<Rightarrow> string option" where
  \<comment> \<open>The type of the first candidate page, in the order the pages are fetched, on which
      an address is found.\<close>
  "first_seen w website_url max_pages email =
     (case get_candidate_urls w website_url max_pages of
        Inl e \<Rightarrow> None
      | Inr urls \<Rightarrow> map_of (fst (fetch_pages w 0 urls)) email)"

definition field_usable :: "lead \<Rightarrow> string \<Rightarrow> bool" where
  \<comment> \<open>The field is there, its value is not empty, and it is not the sentinel once the
      whitespace around it is stripped.\<close>
  "field_usable l k =
     (case map_of l k of
        None \<Rightarrow> False
      | Some v \<Rightarrow> truthy v \<and> \<not> str_strip_is v ''Nill'')"

definition field_not_sentinel :: "lead \<Rightarrow> string \<Rightarrow> bool" where
  \<comment> \<open>The words of claim C8: the field is present (there, with a value that is not
      empty) and is not the sentinel \<open>Nill\<close>.\<close>
  "field_not_sentinel l k =
     (case map_of l k of
        None \<Rightarrow> False
      | Some v \<Rightarrow> truthy v \<and> v \<noteq> PStr ''Nill'')"

definition csv_rows :: "files \<Rightarrow> string \<Rightarrow> pyval list list" where
  \<comment> \<open>The data rows of the CSV file at a path.\<close>
  "csv_rows fs output_path =
     (case fs output_path of Some (Csv_file header rows) \<Rightarrow> rows | _ \<Rightarrow> [])"

definition checkpoint_at :: "files \<Rightarrow> string \<Rightarrow> lead list \<times> string list \<times> string list" where
  \<comment> \<open>What the checkpoint file at a path holds.\<close>
  "checkpoint_at fs cf =
     (case fs cf of
        Some (Checkpoint_file data) \<Rightarrow>
          ((case doc_leads data of None \<Rightarrow> [] | Some ls \<Rightarrow> ls),
           (case doc_seen_place_ids data of None \<Rightarrow> [] | Some xs \<Rightarrow> xs),
           (case doc_seen_domains data of None \<Rightarrow> [] | Some xs \<Rightarrow> xs))
      | _ \<Rightarrow> ([], [], []))"

definition main_loaded_leads :: "env \<Rightarrow> cli_args \<Rightarrow> files \<Rightarrow> lead list" where
  \<comment> \<open>The leads of the checkpoint \<open>main\<close> starts from: what \<open>load_checkpoint()\<close> returns
      after the optional clearing.\<close>
  "main_loaded_leads env args fs0 =
     fst (load_checkpoint (on_vercel env)
            (clear_file (clear_checkpoint args) CHECKPOINT_FILE fs0) None)"

definition collection_loaded_leads ::
  "env \<Rightarrow> bool \<Rightarrow> string option \<Rightarrow> files \<Rightarrow> lead list" where
  \<comment> \<open>The leads of the checkpoint \<open>run_collection\<close> starts from.\<close>
  "collection_loaded_leads env clear work_dir fs0 =
     fst (load_checkpoint (on_vercel env)
            (clear_file clear
               (writable_checkpoint_path (on_vercel env) (collection_checkpoint_file env work_dir))
               fs0)
            (collection_checkpoint_file env work_dir))"

definition known_place :: "state \<Rightarrow> place \<Rightarrow> bool" where
  \<comment> \<open>The loop of \<open>_run_google\<close> rejects the place: its identity key or its domain is in
      the sets.\<close>
  "known_place st p =
     (place_id p \<in> seen_place_ids st \<or> get_domain_for_dedup (website p) \<in> seen_domains st)"

definition grows :: "state \<Rightarrow> state \<Rightarrow> bool" where
  \<comment> \<open>From the first state to the second the two sets and the list of leads have only
      grown, and the sets are finite if they were.\<close>
  "grows st st' =
     (seen_place_ids st \<subseteq> seen_place_ids st' \<and> seen_domains st \<subseteq> seen_domains st'
      \<and> length (leads st) \<le> length (leads st')
      \<and> (finite (seen_place_ids st) \<and> finite (seen_domains st) \<longrightarrow>
          finite (seen_place_ids st') \<and> finite (seen_domains st')))"

section \<open>Sample inputs\<close>

text \<open>Concrete places, networks and environments on which the functions are evaluated.\<close>

definition sample_place :: "string \<Rightarrow> string \<Rightarrow> string \<Rightarrow> place" where
  "sample_place pid nm url =
     \<lparr>place_id = pid, name = nm, formatted_address = ''Hauptstr. 1 69117 Heidelberg'',
      latitude = 49.41, longitude = 8.71, website = url, phone = [],
      google_maps_url = ''https://www.openstreetmap.org/'' @ pid,
      rating = None, user_ratings_total = None, types = [''amenity=dentist'']\<rparr>"

definition sample_web :: web where
  \<comment> \<open>A site that allows the harvester; its home page and its contact page hold
      addresses.\<close>
  "sample_web =
     \<lparr>read_robots = (\<lambda>robots_url. Some (\<lambda>agent url. True)),
      http_get = (\<lambda>url. if url = ''https://praxis.de/'' then Some ''home''
                        else if url = ''https://praxis.de/kontakt'' then Some ''kontakt''
                        else None),
      urljoin = (\<lambda>base rel. base @ rel),
      finditer = (\<lambda>html. if html = ''home''
                          then [''info@praxis.de'', ''dr.mai@gmail.com'', ''info@praxis.de'']
                          else [''dr.mai@gmail.com'', ''termin@praxis.de''])\<rparr>"

definition blocking_web :: web where
  \<comment> \<open>The same site with a robots policy that refuses every agent.\<close>
  "blocking_web = sample_web\<lparr>read_robots := (\<lambda>robots_url. Some (\<lambda>agent url. False))\<rparr>"

definition sample_env :: env where
  \<comment> \<open>Both adapters return the same two places for every niche and city.\<close>
  "sample_env =
     \<lparr>on_vercel = False,
      list_of_set = (\<lambda>S. filter (\<lambda>x. x \<in> S)
                      [''osm:node:1'', ''osm:node:2'', ''praxis.de'', ''zahnarzt.de'', []]),
      google_setup = None,
      collect_places_for_niche_city =
        (\<lambda>niche city. Some [sample_place ''osm:node:1'' ''Praxis'' ''https://praxis.de'',
                             sample_place ''osm:node:2'' ''Zahnarzt'' ''https://zahnarzt.de'']),
      collect_osm_places_for_niche_city =
        (\<lambda>niche city. Some [sample_place ''osm:node:1'' ''Praxis'' ''https://praxis.de'',
                             sample_place ''osm:node:2'' ''Zahnarzt'' ''https://zahnarzt.de'']),
      the_web = sample_web,
      as_completed = rev\<rparr>"


definition sample_lead :: "string \<Rightarrow> string \<Rightarrow> string \<Rightarrow> string \<Rightarrow> lead" where
  \<comment> \<open>A lead with a website and one harvested address.\<close>
  "sample_lead pid nm url email =
     with_emails (place_to_lead (sample_place pid nm url) ''Dentists'' ''Heidelberg'')
       [email] ''homepage''"

definition sample_checkpoint :: files where
  \<comment> \<open>A file system whose default checkpoint file holds two leads.\<close>
  "sample_checkpoint =
     (\<lambda>p. None)(CHECKPOINT_FILE \<mapsto> Checkpoint_file
        \<lparr>doc_leads = Some [sample_lead ''osm:node:1'' ''Praxis'' ''https://praxis.de'' ''info@praxis.de'',
                            sample_lead ''osm:node:2'' ''Zahnarzt'' ''https://zahnarzt.de'' ''mail@zahnarzt.de''],
         doc_seen_place_ids = Some [''osm:node:1'', ''osm:node:2''],
         doc_seen_domains = Some [''praxis.de'', ''zahnarzt.de'']\<rparr>)"

definition rows_written :: "py_error + files \<Rightarrow> string \<Rightarrow> nat" where
  \<comment> \<open>The number of data rows a run left in the CSV file at a path.\<close>
  "rows_written r output_path =
     (case r of Inl e \<Rightarrow> 0 | Inr fs \<Rightarrow> length (csv_rows fs output_path))"

definition after_first_run :: files where
  \<comment> \<open>The files a first OpenStreetMap run without harvesting leaves, from no files.\<close>
  "after_first_run =
     ((\<lambda>p. None)(CHECKPOINT_FILE \<mapsto> Checkpoint_file
         \<lparr>doc_leads = Some [], doc_seen_place_ids = Some [''osm:node:1''],
          doc_seen_domains = Some [''praxis.de'']\<rparr>))
       (''outputs/leads_export.csv'' \<mapsto> Csv_file COLUMNS [])"

definition after_second_run :: files where
  \<comment> \<open>The files the same run leaves when it starts from \<open>after_first_run\<close>.\<close>
  "after_second_run =
     (after_first_run(CHECKPOINT_FILE \<mapsto> Checkpoint_file
         \<lparr>doc_leads = Some [], doc_seen_place_ids = Some [''osm:node:1'', ''osm:node:2''],
          doc_seen_domains = Some [''praxis.de'', ''zahnarzt.de'']\<rparr>))
       (''outputs/leads_export.csv'' \<mapsto> Csv_file COLUMNS [])"
section \<open>Properties of the string functions\<close>

lemma lower_char_at: "lower_char c = CHR ''@'' \<longleftrightarrow> c = CHR ''@''"
  unfolding lower_char_def Let_def
  by (auto simp: char_of_eq_iff take_bit_eq_mod)

lemma lower_char_hex: "is_hex_char c \<Longrightarrow> is_hex_char (lower_char c)"
  unfolding is_hex_char_def lower_char_def Let_def
  by (auto simp: char_of_eq_iff)

lemma hex_not_space: "is_hex_char c \<Longrightarrow> \<not> is_space c"
  unfolding is_hex_char_def is_space_def by auto

lemma rstrip_keep: "\<not> is_space c \<Longrightarrow> rstrip (xs @ c # ys) = xs @ c # rstrip ys"
  unfolding rstrip_def by (simp add: dropWhile_append)

lemma lstrip_keep: "\<not> is_space c \<Longrightarrow> lstrip (c # xs) = c # xs"
  unfolding lstrip_def by simp

lemma set_rstrip: "set (rstrip s) \<subseteq> set s"
  unfolding rstrip_def using set_dropWhileD by fastforce

lemma before_last_append: "c \<notin> set ys \<Longrightarrow> before_last c (xs @ c # ys) = xs"
  unfolding before_last_def by (simp add: dropWhile_append)

lemma hex_run_matches:
  assumes "20 \<le> length l" and "list_all is_hex_char l"
  shows "HEX_ID_PATTERN_match l"
proof -
  have tw: "takeWhile is_hex_char l = l"
    using assms(2) by (simp add: list_all_iff)
  show ?thesis
    unfolding HEX_ID_PATTERN_match_def Let_def tw using assms(1) by simp
qed

lemma hex_local_rejected:
  assumes len: "20 \<le> length l" and hex: "list_all is_hex_char l" and d: "CHR ''@'' \<notin> set d"
  shows "\<not> is_valid_email (l @ ''@'' @ d)"
proof -
  obtain a l' where l: "l = a # l'" using len by (cases l) auto
  have a: "\<not> is_space (lower_char a)"
    using hex l by (simp add: lower_char_hex hex_not_space)
  have at: "\<not> is_space CHR ''@''" by (simp add: is_space_def)
  have low: "lower (l @ ''@'' @ d) = lower l @ CHR ''@'' # lower d"
    by (simp add: lower_def lower_char_at)
  have "lstrip (lower l @ CHR ''@'' # lower d) = lower l @ CHR ''@'' # lower d"
    using a l by (simp add: lower_def lstrip_keep)
  then have "strip (lower (l @ ''@'' @ d)) = lower l @ CHR ''@'' # rstrip (lower d)"
    unfolding strip_def low using at by (simp add: rstrip_keep)
  moreover have "CHR ''@'' \<notin> set (rstrip (lower d))"
  proof
    assume "CHR ''@'' \<in> set (rstrip (lower d))"
    then have "CHR ''@'' \<in> set (lower d)" using set_rstrip by blast
    then obtain c where "c \<in> set d" and "lower_char c = CHR ''@''"
      by (auto simp: lower_def)
    then show False using d by (simp add: lower_char_at)
  qed
  moreover have "HEX_ID_PATTERN_match (lower l)"
    using len hex by (intro hex_run_matches) (auto simp: lower_def list_all_iff lower_char_hex)
  ultimately show ?thesis
    by (simp add: is_valid_email_def Let_def before_last_append)
qed

lemma contains_png_rejected: "contains e ''.png'' \<Longrightarrow> \<not> is_valid_email e"
  by (simp add: is_valid_email_def Let_def)

section \<open>The email validity filter\<close>

text \<open>
  Claim C7. The validator of the harvester accepts \<open>info@business.de\<close>, rejects
  \<open>support@example.com\<close> (a placeholder domain), rejects every address whose local part,
  the text before its only \<open>@\<close>, is a string of twenty or more hexadecimal digits, and
  rejects every address that contains \<open>.png\<close>.
\<close>

theorem is_valid_email_filter:
  "is_valid_email ''info@business.de''
   \<and> \<not> is_valid_email ''support@example.com''
   \<and> (\<forall>l d. 20 \<le> length l \<and> list_all is_hex_char l \<and> CHR ''@'' \<notin> set d
          \<longrightarrow> \<not> is_valid_email (l @ ''@'' @ d))
   \<and> (\<forall>e. contains e ''.png'' \<longrightarrow> \<not> is_valid_email e)"
proof (intro conjI allI impI)
  show "is_valid_email ''info@business.de''" by code_simp
  show "\<not> is_valid_email ''support@example.com''" by code_simp
next
  fix l d assume "20 \<le> length l \<and> list_all is_hex_char l \<and> CHR ''@'' \<notin> set d"
  then show "\<not> is_valid_email (l @ ''@'' @ d)" using hex_local_rejected by blast
next
  fix e assume "contains e ''.png''"
  then show "\<not> is_valid_email e" by (rule contains_png_rejected)
qed

theorem is_valid_email_filter_witness:
  "\<not> is_valid_email ''0123456789abcdef0123@business.de''
   \<and> \<not> is_valid_email ''logo@2x.png''"
proof -
  have h: "20 \<le> length ''0123456789abcdef0123'' \<and> list_all is_hex_char ''0123456789abcdef0123''
      \<and> CHR ''@'' \<notin> set ''business.de''"
    by (simp add: is_hex_char_def)
  have p: "contains ''logo@2x.png'' ''.png''" by (simp add: startswith_def)
  from is_valid_email_filter h p show ?thesis
    by (metis append.simps(1) append.simps(2))
qed
section \<open>Website normalisation\<close>

lemma space_lower: "is_space c \<Longrightarrow> lower_char c = c"
  unfolding is_space_def lower_char_def Let_def by auto

lemma lower_not_space: "\<not> is_space (lower_char c) \<Longrightarrow> \<not> is_space c"
  using space_lower by force

lemma rstrip_idem: "rstrip (rstrip s) = rstrip s"
  unfolding rstrip_def by simp

lemma rstrip_no_space: "\<not> list_ex is_space s \<Longrightarrow> rstrip s = s"
proof -
  assume "\<not> list_ex is_space s"
  then have "dropWhile is_space (rev s) = rev s"
    by (cases "rev s") (auto simp: list_ex_iff)
  then show ?thesis by (simp add: rstrip_def)
qed

lemma set_lstrip: "set (lstrip s) \<subseteq> set s"
  unfolding lstrip_def using set_dropWhileD by fastforce

lemma set_strip: "set (strip s) \<subseteq> set s"
  unfolding strip_def using set_rstrip set_lstrip by blast

lemma rstrip_strip: "rstrip (strip s) = strip s"
  unfolding strip_def by (rule rstrip_idem)

lemma set_rstrip_chars: "set (rstrip_chars cs s) \<subseteq> set s"
  unfolding rstrip_chars_def using set_dropWhileD by fastforce

lemma rstrip_chars_last: "rstrip_chars cs s \<noteq> [] \<Longrightarrow> last (rstrip_chars cs s) \<notin> set cs"
proof -
  assume ne: "rstrip_chars cs s \<noteq> []"
  then have "dropWhile (\<lambda>c. c \<in> set cs) (rev s) \<noteq> []" by (simp add: rstrip_chars_def)
  then have "\<not> hd (dropWhile (\<lambda>c. c \<in> set cs) (rev s)) \<in> set cs"
    using hd_dropWhile by blast
  then show ?thesis using ne by (simp add: rstrip_chars_def last_rev)
qed

lemma set_before_first: "c \<notin> set (before_first c s)"
  unfolding before_first_def using set_takeWhileD by fastforce

lemma set_before_first_sub: "set (before_first c s) \<subseteq> set s"
  unfolding before_first_def using set_takeWhileD by fastforce

text \<open>A string that starts with http:// or https:// after lower-casing keeps that start
  when whitespace is stripped from its ends.\<close>

lemma prefix_kept:
  assumes p: "startswith (lower s) p" and ns: "\<not> list_ex is_space p" and ne: "p \<noteq> []"
  shows "lstrip s = s" and "startswith (lower (rstrip s)) p"
proof -
  define a where "a = take (length p) s"
  define b where "b = drop (length p) s"
  have s: "s = a @ b" by (simp add: a_def b_def)
  have la: "map lower_char a = p"
    using p by (simp add: a_def lower_def take_map startswith_def)
  have a_ns: "\<not> list_ex is_space a"
  proof
    assume "list_ex is_space a"
    then obtain c where ca: "c \<in> set a" and sp: "is_space c" by (auto simp: list_ex_iff)
    have "lower_char c \<in> lower_char ` set a" using ca by (rule imageI)
    then have "lower_char c \<in> set p" using la by (metis set_map)
    then have "c \<in> set p" using space_lower[OF sp] by simp
    then show False using ns sp by (auto simp: list_ex_iff)
  qed
  have a_ne: "a \<noteq> []" using la ne by auto
  then obtain a' c where a: "a = a' @ [c]" by (metis rev_exhaust)
  have c: "\<not> is_space c" using a_ns a by (simp add: list_ex_iff)
  obtain h t where ht: "a = h # t" using a_ne by (cases a) auto
  have "\<not> is_space h" using a_ns ht by (simp add: list_ex_iff)
  then show "lstrip s = s" unfolding s ht by (simp add: lstrip_def)
  have "rstrip (a' @ c # b) = a' @ c # rstrip b"
    using c by (rule rstrip_keep)
  then have r: "rstrip s = a @ rstrip b" unfolding s a by simp
  have "length a = length p" using la by (metis length_map)
  then have "take (length p) (map lower_char (a @ rstrip b)) = map lower_char a"
    by simp
  then show "startswith (lower (rstrip s)) p"
    unfolding r startswith_def lower_def using la by simp
qed

lemma http_prefix_strip:
  assumes "is_http_prefixed (lower s)"
  shows "strip s = rstrip s" and "is_http_prefixed (lower (rstrip s))" and "rstrip s \<noteq> []"
proof -
  have ns7: "\<not> list_ex is_space ''http://''" and ns8: "\<not> list_ex is_space ''https://''"
    by (simp_all add: is_space_def)
  have ne7: "''http://'' \<noteq> []" and ne8: "''https://'' \<noteq> []" by simp_all
  from assms consider "startswith (lower s) ''http://''" | "startswith (lower s) ''https://''"
    unfolding is_http_prefixed_def by blast
  then have both: "lstrip s = s \<and> is_http_prefixed (lower (rstrip s))"
  proof cases
    case 1
    from prefix_kept[OF 1 ns7 ne7] show ?thesis unfolding is_http_prefixed_def by blast
  next
    case 2
    from prefix_kept[OF 2 ns8 ne8] show ?thesis unfolding is_http_prefixed_def by blast
  qed
  from both show "strip s = rstrip s" by (simp add: strip_def)
  from both show h: "is_http_prefixed (lower (rstrip s))" by blast
  have "\<not> is_http_prefixed []" by (simp add: is_http_prefixed_def startswith_def)
  then show "rstrip s \<noteq> []" using h by (auto simp: lower_def)
qed

lemma normalize_http: "normalize_website x \<noteq> [] \<Longrightarrow> is_http_prefixed (lower (normalize_website x))"
  unfolding normalize_website_def Let_def
  by (auto simp: is_http_prefixed_def startswith_def lower_def lower_char_def char_of_eq_iff split: if_splits)

lemma normalize_no_query: "CHR ''?'' \<notin> set (normalize_website x)"
proof -
  have "CHR ''?'' \<notin> set (rstrip_chars ''/'' (before_first CHR ''?'' (strip x)))"
    using set_rstrip_chars set_before_first by fastforce
  then show ?thesis
    unfolding normalize_website_def Let_def by auto
qed

lemma normalize_twice: "normalize_website (normalize_website x) = rstrip (normalize_website x)"
proof (cases "normalize_website x = []")
  case True
  then show ?thesis by (simp add: normalize_website_def rstrip_def)
next
  case False
  define r where "r = normalize_website x"
  have h: "is_http_prefixed (lower r)" using False normalize_http r_def by blast
  have q: "CHR ''?'' \<notin> set (rstrip r)" using normalize_no_query[of x] set_rstrip r_def by blast
  show ?thesis
    unfolding r_def[symmetric]
    using False r_def q http_prefix_strip[OF h]
    by (simp add: normalize_website_def)
qed

lemma normalize_no_slash:
  assumes "CHR ''?'' \<in> set (strip x)"
  shows "\<not> endswith (normalize_website x) ''/''"
proof -
  define u where "u = rstrip_chars ''/'' (before_first CHR ''?'' (strip x))"
  have u: "u \<noteq> [] \<Longrightarrow> last u \<noteq> CHR ''/''"
    using rstrip_chars_last[of "''/''"] u_def by fastforce
  have x: "x \<noteq> []" using assms by (auto simp: strip_def rstrip_def lstrip_def)
  have "normalize_website x = u \<or> (u \<noteq> [] \<and> normalize_website x = ''https://'' @ u)"
    using assms x by (auto simp: normalize_website_def Let_def u_def)
  moreover have "\<And>s. endswith s ''/'' \<Longrightarrow> s \<noteq> [] \<and> last s = CHR ''/''"
    by (auto simp: endswith_def) (metis append_take_drop_id last_snoc)
  ultimately show ?thesis using u by (metis last_appendR)
qed

lemma normalize_idem_no_query:
  assumes "CHR ''?'' \<notin> set x"
  shows "normalize_website (normalize_website x) = normalize_website x"
proof -
  have q: "CHR ''?'' \<notin> set (strip x)" using assms set_strip by blast
  have "normalize_website x = strip x \<or> normalize_website x = ''https://'' @ strip x"
    using q by (auto simp: normalize_website_def Let_def strip_def rstrip_def lstrip_def)
  moreover have "rstrip (''https://'' @ strip x) = ''https://'' @ strip x"
    using rstrip_keep[of "CHR ''/''" "''https:/''" "strip x"] rstrip_strip
    by (simp add: is_space_def)
  ultimately show ?thesis using normalize_twice rstrip_strip by metis
qed

lemma normalize_idem_no_space:
  assumes "\<not> list_ex is_space x"
  shows "normalize_website (normalize_website x) = normalize_website x"
proof -
  have "\<not> list_ex is_space (strip x)" using assms set_strip by (auto simp: list_ex_iff)
  moreover have "\<not> list_ex is_space (rstrip_chars ''/'' (before_first CHR ''?'' (strip x)))"
    using assms set_strip set_rstrip_chars set_before_first_sub
    by (fastforce simp: list_ex_iff)
  ultimately have "\<not> list_ex is_space (normalize_website x)"
    unfolding normalize_website_def Let_def by (auto simp: list_ex_iff is_space_def)
  then show ?thesis using normalize_twice rstrip_no_space by simp
qed

text \<open>
  Claim C5, as amended. For every input string, a non-empty result of
  \<open>_normalize_website\<close> starts, whatever the case of its letters, with \<open>http://\<close> or
  \<open>https://\<close> and holds no \<open>?\<close>; it does not end in a slash when the input held a query
  string. Normalisation is idempotent on every input without a \<open>?\<close> and on every input
  without whitespace. \<open>example.com\<close> becomes \<open>https://example.com\<close> and
  \<open>http://example.com?utm_source=fb\<close> becomes \<open>http://example.com\<close>.

  A trailing slash is removed only together with a query string, so
  \<open>https://example.com/\<close> keeps its slash; and whitespace in front of the \<open>?\<close> survives
  the first normalisation and not the second, as \<open>a ?b\<close> shows.
\<close>

theorem normalize_website_amended:
  "(normalize_website x \<noteq> [] \<longrightarrow>
      is_http_prefixed (lower (normalize_website x)) \<and> CHR ''?'' \<notin> set (normalize_website x))
   \<and> (CHR ''?'' \<in> set (strip x) \<longrightarrow> \<not> endswith (normalize_website x) ''/'')
   \<and> (CHR ''?'' \<notin> set x \<longrightarrow> normalize_website (normalize_website x) = normalize_website x)
   \<and> (\<not> list_ex is_space x \<longrightarrow> normalize_website (normalize_website x) = normalize_website x)
   \<and> normalize_website ''example.com'' = ''https://example.com''
   \<and> normalize_website ''http://example.com?utm_source=fb'' = ''http://example.com''"
proof (intro conjI impI)
  show "normalize_website ''example.com'' = ''https://example.com''" by code_simp
  show "normalize_website ''http://example.com?utm_source=fb'' = ''http://example.com''" by code_simp
  show "normalize_website x \<noteq> [] \<Longrightarrow> is_http_prefixed (lower (normalize_website x))"
    by (rule normalize_http)
  show "CHR ''?'' \<notin> set (normalize_website x)"
    by (rule normalize_no_query)
  show "CHR ''?'' \<in> set (strip x) \<Longrightarrow> \<not> endswith (normalize_website x) ''/''"
    by (rule normalize_no_slash)
  show "CHR ''?'' \<notin> set x \<Longrightarrow> normalize_website (normalize_website x) = normalize_website x"
    by (rule normalize_idem_no_query)
  show "\<not> list_ex is_space x \<Longrightarrow> normalize_website (normalize_website x) = normalize_website x"
    by (rule normalize_idem_no_space)
qed

theorem normalize_website_counterexample:
  "endswith (normalize_website ''https://example.com/'') ''/''
   \<and> normalize_website (normalize_website ''a ?b'') \<noteq> normalize_website ''a ?b''"
  by code_simp

theorem normalize_website_amended_witness:
  "is_http_prefixed (lower (normalize_website ''Example.com/shop/?id=1''))
   \<and> CHR ''?'' \<notin> set (normalize_website ''Example.com/shop/?id=1'')
   \<and> \<not> endswith (normalize_website ''Example.com/shop/?id=1'') ''/''
   \<and> normalize_website (normalize_website ''example.com/'') = normalize_website ''example.com/''
   \<and> normalize_website (normalize_website ''Example.com/shop/?id=1'')
       = normalize_website ''Example.com/shop/?id=1''"
proof -
  have a: "normalize_website ''Example.com/shop/?id=1'' \<noteq> []" by code_simp
  have b: "CHR ''?'' \<in> set (strip ''Example.com/shop/?id=1'')" by code_simp
  have c: "CHR ''?'' \<notin> set ''example.com/''" by simp
  have d: "\<not> list_ex is_space ''Example.com/shop/?id=1''" by code_simp
  show ?thesis
    using normalize_website_amended[of "''Example.com/shop/?id=1''"]
      normalize_website_amended[of "''example.com/''"] a b c d
    by blast
qed

section \<open>The domain used for deduplication\<close>

text \<open>
  Claim C6 says that the domain recorded for a website is the host of its URL in lower
  case with only a leading \<open>www.\<close> removed. Both \<open>get_domain_for_dedup\<close> functions call
  \<open>replace("www.", "")\<close>, which removes the four characters wherever they stand in the
  host: the host \<open>awww.example.com\<close> is recorded as \<open>aexample.com\<close>. The test of the
  repository, a host with a leading \<open>www.\<close>, is met.
\<close>

theorem domain_removes_every_www:
  "get_domain_for_dedup ''https://www.foo.de/kontakt'' = ''foo.de''
   \<and> get_domain_for_dedup ''https://awww.example.com'' = ''aexample.com''
   \<and> osm_get_domain ''https://awww.example.com'' = ''aexample.com''"
  by code_simp

section \<open>The checkpoint store\<close>

text \<open>
  Claim C4. For every ledger state, the leads in their order and the two sets,
  \<open>save_checkpoint\<close> followed by \<open>load_checkpoint\<close> on the same file gives back the same
  leads in the same order and equal sets. The order in which \<open>list(s)\<close> lists a set is
  free; what is assumed of it is that it lists the members of the set and nothing else.
\<close>

theorem checkpoint_round_trip:
  assumes "set (as_list ids) = ids" and "set (as_list doms) = doms"
  shows "load_checkpoint v (save_checkpoint v as_list ls ids doms cf fs) cf = (ls, ids, doms)"
  using assms by (simp add: load_checkpoint_def save_checkpoint_def Let_def)

theorem checkpoint_round_trip_witness:
  "load_checkpoint False
     (save_checkpoint False (list_of_set sample_env)
        [place_to_lead (sample_place ''osm:node:1'' ''Praxis'' ''https://praxis.de'') ''Dentists'' ''Heidelberg'']
        {''osm:node:1'', ''osm:node:2''} {''praxis.de''} None (\<lambda>p. None)) None
   = ([place_to_lead (sample_place ''osm:node:1'' ''Praxis'' ''https://praxis.de'') ''Dentists'' ''Heidelberg''],
      {''osm:node:1'', ''osm:node:2''}, {''praxis.de''})"
proof -
  have a: "set (list_of_set sample_env {''osm:node:1'', ''osm:node:2''}) = {''osm:node:1'', ''osm:node:2''}"
    by (auto simp: sample_env_def)
  have b: "set (list_of_set sample_env {''praxis.de''}) = {''praxis.de''}"
    by (auto simp: sample_env_def)
  show ?thesis using checkpoint_round_trip[OF a b] by simp
qed

section \<open>The exporter\<close>

lemma exportable_usable:
  "exportable l = (field_usable l ''emails_found'' \<and> field_usable l ''website_url'')"
  by (auto simp: exportable_def field_usable_def dict_get_def truthy_def str_strip_is_def
           split: option.splits pyval.splits)

text \<open>
  Claim C8, as amended. With \<open>require_email_and_website\<close> set, \<open>export_csv\<close> writes the
  header row of the seven fixed columns and then, in their order, exactly the leads
  whose \<open>emails_found\<close> and \<open>website_url\<close> both have a value that is not empty and that,
  once the whitespace around it is stripped, is not the sentinel \<open>Nill\<close>. With no such
  lead the file holds the header alone.

  The comparison with the sentinel is made after \<open>strip()\<close>: a lead whose \<open>emails_found\<close>
  is the sentinel with a space in front is left out, although its value is not the
  string \<open>Nill\<close>.
\<close>

theorem export_csv_amended:
  "export_csv fs ls output_path True =
     fs(output_path \<mapsto> Csv_file COLUMNS
          (map (csv_row COLUMNS)
             (filter (\<lambda>l. field_usable l ''emails_found'' \<and> field_usable l ''website_url'') ls)))
   \<and> csv_rows (export_csv fs [] output_path True) output_path = []
   \<and> export_csv fs [] output_path True output_path = Some (Csv_file COLUMNS [])"
proof -
  have "exportable = (\<lambda>l. field_usable l ''emails_found'' \<and> field_usable l ''website_url'')"
    by (rule ext) (rule exportable_usable)
  then show ?thesis by (simp add: export_csv_def csv_rows_def)
qed

theorem export_csv_counterexample:
  "field_not_sentinel [(''business_name'', PStr ''Praxis''), (''website_url'', PStr ''https://praxis.de''),
       (''emails_found'', PStr '' Nill'')] ''emails_found''
   \<and> field_not_sentinel [(''business_name'', PStr ''Praxis''), (''website_url'', PStr ''https://praxis.de''),
       (''emails_found'', PStr '' Nill'')] ''website_url''
   \<and> export_csv (\<lambda>p. None)
        [[(''business_name'', PStr ''Praxis''), (''website_url'', PStr ''https://praxis.de''),
          (''emails_found'', PStr '' Nill'')]] ''leads.csv'' True ''leads.csv''
       = Some (Csv_file COLUMNS [])"
  by code_simp
section \<open>The harvester and the robots policy\<close>

lemma check_requests:
  "page_fetches (snd (check_robots_allowed w url)) = []"
  by (auto simp: check_robots_allowed_def page_fetches_def Let_def
           split: sum.splits option.splits)

text \<open>
  When the robots check of the harvester answers no for a URL that passed the test of the
  prefix, the harvester returns no address and the hint \<open>robots_blocked\<close>, and the
  requests it made are those of the check: no content page is among them.
\<close>

lemma refused_by_robots_check:
  assumes "website_url \<noteq> []" and "is_http_prefixed website_url"
    and "\<not> fst (check_robots_allowed w website_url)"
  shows "extract_emails_from_website w website_url max_pages
           = (Inr ([], ''robots_blocked''), snd (check_robots_allowed w website_url))"
    and "page_fetches (snd (extract_emails_from_website w website_url max_pages)) = []"
proof -
  obtain allowed reqs0 where c: "check_robots_allowed w website_url = (allowed, reqs0)"
    by (cases "check_robots_allowed w website_url")
  then show e: "extract_emails_from_website w website_url max_pages
                  = (Inr ([], ''robots_blocked''), snd (check_robots_allowed w website_url))"
    using assms by (simp add: extract_emails_from_website_def)
  show "page_fetches (snd (extract_emails_from_website w website_url max_pages)) = []"
    using e check_requests[of w website_url] by simp
qed

text \<open>
  Claim C9. For a website URL whose robots policy refuses the harvester's user agent the
  harvester is to fetch no content page and to return an empty list of addresses with
  the hint \<open>robots_blocked\<close>.

  The places carry their website as \<open>_normalize_website\<close> returns it, and that function
  accepts a scheme written in upper case: it tests \<open>url.lower().startswith\<close> and leaves
  \<open>HTTP://praxis.de\<close> as it is. The harvester tests
  \<open>website_url.startswith(("http://", "https://"))\<close> on the URL as written. On a site
  whose robots policy refuses every agent, \<open>http://praxis.de\<close> is answered with the hint
  \<open>robots_blocked\<close> after the one request for \<open>robots.txt\<close>; \<open>HTTP://praxis.de\<close> is turned
  away before the policy is read, and the hint is empty.
\<close>

theorem upper_case_scheme_not_blocked:
  "normalize_website ''HTTP://praxis.de'' = ''HTTP://praxis.de''
   \<and> robots_disallows blocking_web ''HTTP://praxis.de''
   \<and> extract_emails_from_website blocking_web ''HTTP://praxis.de'' 2 = (Inr ([], []), [])
   \<and> robots_disallows blocking_web ''http://praxis.de''
   \<and> extract_emails_from_website blocking_web ''http://praxis.de'' 2
       = (Inr ([], ''robots_blocked''), [Robots_fetch ''http://praxis.de/robots.txt''])"
  by code_simp


section \<open>Addresses and their page hints\<close>

lemma dedup_emails_spec:
  "dedup_emails all seen = (es, ss) \<Longrightarrow>
     distinct es \<and> set es \<inter> seen = {} \<and> set es \<subseteq> fst ` set all
     \<and> ss = map (\<lambda>e. the (map_of all e)) es"
proof (induction all arbitrary: seen es ss)
  case Nil
  then show ?case by simp
next
  case (Cons p rest)
  obtain email src where p: "p = (email, src)" by (cases p)
  show ?case
  proof (cases "email \<in> seen")
    case True
    then have "dedup_emails rest seen = (es, ss)" using Cons.prems p by simp
    from Cons.IH[OF this] True p show ?thesis by auto
  next
    case False
    obtain es' ss' where r: "dedup_emails rest (insert email seen) = (es', ss')"
      by (cases "dedup_emails rest (insert email seen)")
    then have es: "es = email # es'" and ss: "ss = src # ss'"
      using Cons.prems p False by simp_all
    from Cons.IH[OF r] have ih: "distinct es'" "set es' \<inter> insert email seen = {}"
      "set es' \<subseteq> fst ` set rest" "ss' = map (\<lambda>e. the (map_of rest e)) es'" by simp_all
    have "\<forall>e \<in> set es'. e \<noteq> email" using ih(2) by auto
    then have "map (\<lambda>e. the (map_of rest e)) es' = map (\<lambda>e. the (map_of (p # rest) e)) es'"
      using p by (intro map_cong) auto
    then show ?thesis using es ss ih p False by auto
  qed
qed

lemma dedup_emails_first_seen:
  assumes "dedup_emails all seen = (es, ss)" and "i < length es"
  shows "map_of all (es ! i) = Some (ss ! i)"
proof -
  from dedup_emails_spec[OF assms(1)]
  have sub: "set es \<subseteq> fst ` set all" and ss: "ss = map (\<lambda>e. the (map_of all e)) es"
    by simp_all
  have "es ! i \<in> fst ` set all" using sub assms(2) by (meson nth_mem subsetD)
  then obtain v where "map_of all (es ! i) = Some v"
    by (metis domD dom_map_of_conv_image_fst)
  then show ?thesis using ss assms(2) by simp
qed

lemma fetch_pages_types:
  "(e, t) \<in> set (fst (fetch_pages w i urls)) \<Longrightarrow> \<exists>j. t = page_type j"
proof (induction urls arbitrary: i)
  case Nil
  then show ?case by simp
next
  case (Cons url urls)
  obtain more reqs where m: "fetch_pages w (Suc i) urls = (more, reqs)"
    by (cases "fetch_pages w (Suc i) urls")
  from Cons.prems m consider "t = page_type i" | "(e, t) \<in> set more"
    by (auto split: option.splits if_splits)
  then show ?case
  proof cases
    case 1
    then show ?thesis by blast
  next
    case 2
    then show ?thesis using Cons.IH[of "Suc i"] m by simp
  qed
qed

text \<open>
  Claim C10, as amended. Whenever \<open>extract_emails_from_website\<close> returns, either the
  site is blocked by its robots policy, the list of addresses is empty and the hint is
  the word \<open>robots_blocked\<close>; or the list holds no address twice and the hint is the
  comma-join of one page hint for each address, in the order of the addresses, the hint
  of an address being the type (\<open>homepage\<close>, \<open>page_1\<close>, ...) of the first fetched page
  on which the address was found.

  For a blocked site the hint is not the join of one hint for each address: there is no
  address and the hint is not empty.
\<close>

theorem email_hint_pairing:
  assumes "extract_emails_from_website w url max_pages = (Inr (emails, hint), reqs)"
  shows "(is_http_prefixed url \<and> \<not> fst (check_robots_allowed w url)
            \<and> emails = [] \<and> hint = ''robots_blocked'')
       \<or> (distinct emails
           \<and> (\<exists>hints. hint = join '','' hints \<and> length hints = length emails
                 \<and> (\<forall>i<length emails.
                        first_seen w url max_pages (emails ! i) = Some (hints ! i)
                        \<and> (\<exists>j. hints ! i = page_type j))))"
proof (cases "url = [] \<or> \<not> is_http_prefixed url")
  case True
  then have "emails = [] \<and> hint = []"
    using assms by (simp add: extract_emails_from_website_def)
  then have "distinct emails \<and> hint = join '','' [] \<and> length ([] :: string list) = length emails"
    by simp
  then show ?thesis by fastforce
next
  case http: False
  obtain allowed reqs0 where c: "check_robots_allowed w url = (allowed, reqs0)"
    by (cases "check_robots_allowed w url")
  show ?thesis
  proof (cases allowed)
    case False
    then have "emails = [] \<and> hint = ''robots_blocked''"
      using assms http c by (simp add: extract_emails_from_website_def)
    then show ?thesis using http c False by simp
  next
    case True
    then obtain urls where u: "get_candidate_urls w url max_pages = Inr urls"
      using assms http c by (auto simp: extract_emails_from_website_def split: sum.splits)
    obtain all reqs1 where f: "fetch_pages w 0 urls = (all, reqs1)"
      by (cases "fetch_pages w 0 urls")
    obtain es ss where d: "dedup_emails all {} = (es, ss)"
      by (cases "dedup_emails all {}")
    have res: "emails = es" "hint = join '','' ss"
      using assms http c True u f d by (auto simp: extract_emails_from_website_def)
    from dedup_emails_spec[OF d] have dist: "distinct es" and len: "length ss = length es"
      by simp_all
    have fs: "first_seen w url max_pages e = map_of all e" for e
      using u f by (simp add: first_seen_def)
    have "first_seen w url max_pages (es ! i) = Some (ss ! i) \<and> (\<exists>j. ss ! i = page_type j)"
      if "i < length es" for i
    proof -
      have m: "map_of all (es ! i) = Some (ss ! i)"
        using dedup_emails_first_seen[OF d that] .
      then have "(es ! i, ss ! i) \<in> set (fst (fetch_pages w 0 urls))"
        using f by (simp add: map_of_SomeD)
      then have "\<exists>j. ss ! i = page_type j" by (rule fetch_pages_types)
      then show ?thesis using m by (simp add: fs)
    qed
    then show ?thesis using res dist len by blast
  qed
qed

theorem email_hint_pairing_witness:
  "extract_emails_from_website sample_web ''https://praxis.de'' 2
     = (Inr ([''info@praxis.de'', ''dr.mai@gmail.com'', ''termin@praxis.de''],
             ''homepage,homepage,page_1''),
        [Robots_fetch ''https://praxis.de/robots.txt'', Page_fetch ''https://praxis.de/'',
         Sleep, Page_fetch ''https://praxis.de/kontakt''])
   \<and> distinct [''info@praxis.de'', ''dr.mai@gmail.com'', ''termin@praxis.de'']
   \<and> (\<exists>hints. ''homepage,homepage,page_1'' = join '','' hints
         \<and> length hints = length [''info@praxis.de'', ''dr.mai@gmail.com'', ''termin@praxis.de'']
         \<and> (\<forall>i<length [''info@praxis.de'', ''dr.mai@gmail.com'', ''termin@praxis.de''].
               first_seen sample_web ''https://praxis.de'' 2
                 ([''info@praxis.de'', ''dr.mai@gmail.com'', ''termin@praxis.de''] ! i)
                 = Some (hints ! i)
               \<and> (\<exists>j. hints ! i = page_type j)))"
proof -
  have e: "extract_emails_from_website sample_web ''https://praxis.de'' 2
     = (Inr ([''info@praxis.de'', ''dr.mai@gmail.com'', ''termin@praxis.de''],
             ''homepage,homepage,page_1''),
        [Robots_fetch ''https://praxis.de/robots.txt'', Page_fetch ''https://praxis.de/'',
         Sleep, Page_fetch ''https://praxis.de/kontakt''])"
    by code_simp
  have ne: "[''info@praxis.de'', ''dr.mai@gmail.com'', ''termin@praxis.de''] \<noteq> []" by simp
  from email_hint_pairing[OF e] ne e show ?thesis by blast
qed

theorem email_hint_pairing_counterexample:
  "extract_emails_from_website blocking_web ''https://praxis.de'' 2
     = (Inr ([], ''robots_blocked''), [Robots_fetch ''https://praxis.de/robots.txt''])
   \<and> join '','' (map page_type []) \<noteq> ''robots_blocked''"
  by code_simp

section \<open>The lead budget\<close>

text \<open>
  Both loops over the places append one lead and then test the budget, and the loops
  over the cities and the niches test it before every step; the loop over the completed
  futures tests it before every append. A run that starts under the budget therefore
  ends within it, and a run that starts at or over it appends nothing.
\<close>

lemma leads_checkpoint_now [simp]: "leads (checkpoint_now env cfg st) = leads st"
  by (simp add: checkpoint_now_def)

lemma leads_periodic_checkpoint [simp]: "leads (periodic_checkpoint env cfg st) = leads st"
  by (simp add: periodic_checkpoint_def)

lemma budget_reached_periodic [simp]:
  "budget_reached cfg (periodic_checkpoint env cfg st) = budget_reached cfg st"
  by (simp add: budget_reached_def)

lemma google_places_loop_budget:
  "\<not> budget_reached cfg st \<Longrightarrow>
     int (length (leads (google_places_loop env cfg niche city ps st))) \<le> max_leads cfg"
proof (induction ps arbitrary: st)
  case Nil
  then show ?case by (simp add: budget_reached_def)
next
  case (Cons p ps)
  show ?case
  proof (cases "place_id p \<in> seen_place_ids st \<or> get_domain_for_dedup (website p) \<in> seen_domains st")
    case True
    then have "google_places_loop env cfg niche city (p # ps) st
                 = google_places_loop env cfg niche city ps st"
      by (auto simp: Let_def)
    then show ?thesis using Cons by simp
  next
    case False
    define l where "l = (if extract_emails cfg \<and> website p \<noteq> []
                          then (case harvest env (website p) of
                                  Inl e \<Rightarrow> place_to_lead p niche city
                                | Inr (emails, src) \<Rightarrow> with_emails (place_to_lead p niche city) emails src)
                          else place_to_lead p niche city)"
    define st2 where "st2 = periodic_checkpoint env cfg
       (st\<lparr>seen_place_ids := insert (place_id p) (seen_place_ids st),
           seen_domains := insert (get_domain_for_dedup (website p)) (seen_domains st),
           leads := leads st @ [l]\<rparr>)"
    have step: "google_places_loop env cfg niche city (p # ps) st
                 = (if budget_reached cfg st2 then st2
                    else google_places_loop env cfg niche city ps st2)"
      using False by (simp add: Let_def st2_def l_def)
    have len: "length (leads st2) = Suc (length (leads st))" by (simp add: st2_def)
    show ?thesis
    proof (cases "budget_reached cfg st2")
      case True
      then show ?thesis using step len Cons.prems by (simp add: budget_reached_def)
    next
      case False
      then show ?thesis using step Cons.IH[OF False] by simp
    qed
  qed
qed

lemma google_pair_budget:
  "\<not> budget_reached cfg st \<Longrightarrow>
     int (length (leads (google_pair env cfg niche city st))) \<le> max_leads cfg"
  using google_places_loop_budget
  by (auto simp: google_pair_def budget_reached_def split: option.splits)

lemma google_cities_loop_budget:
  "int (length (leads (google_cities_loop env cfg niche cities st)))
     \<le> max (max_leads cfg) (int (length (leads st)))"
proof (induction cities arbitrary: st)
  case Nil
  then show ?case by simp
next
  case (Cons city cities)
  show ?case
  proof (cases "budget_reached cfg st")
    case True
    then show ?thesis by simp
  next
    case False
    from google_pair_budget[OF False]
    have "int (length (leads (google_pair env cfg niche city st))) \<le> max_leads cfg" .
    with Cons.IH[of "google_pair env cfg niche city st"] False show ?thesis by simp
  qed
qed

lemma google_niches_loop_budget:
  "int (length (leads (google_niches_loop env cfg niches cities st)))
     \<le> max (max_leads cfg) (int (length (leads st)))"
proof (induction niches arbitrary: st)
  case Nil
  then show ?case by simp
next
  case (Cons niche niches)
  show ?case
  proof (cases "budget_reached cfg st")
    case True
    then show ?thesis by simp
  next
    case False
    have "int (length (leads (google_cities_loop env cfg niche cities st))) \<le> max_leads cfg"
      using google_cities_loop_budget[of env cfg niche cities st] False
      by (simp add: budget_reached_def)
    with Cons.IH[of "google_cities_loop env cfg niche cities st"] False show ?thesis by simp
  qed
qed

lemma run_google_budget:
  "run_google env cfg niches cities st = Inr st' \<Longrightarrow>
     int (length (leads st')) \<le> max (max_leads cfg) (int (length (leads st)))"
  using google_niches_loop_budget
  by (auto simp: run_google_def split: option.splits)


lemma osm_places_loop_budget:
  "\<not> budget_reached cfg st \<Longrightarrow>
   osm_places_loop cfg niche city ps st cands = (exc, st', cands') \<Longrightarrow>
     int (length (leads st')) \<le> max_leads cfg"
proof (induction ps arbitrary: st cands)
  case Nil
  then show ?case by (simp add: budget_reached_def)
next
  case (Cons p ps)
  define domain where "domain = (if website p \<noteq> [] then osm_get_domain (website p) else [])"
  show ?case
  proof (cases "place_id p \<in> seen_place_ids st \<or> (domain \<noteq> [] \<and> domain \<in> seen_domains st)")
    case True
    then have "osm_places_loop cfg niche city (p # ps) st cands
                 = osm_places_loop cfg niche city ps st cands"
      by (auto simp: Let_def domain_def)
    then show ?thesis using Cons by simp
  next
    case admitted: False
    define st1 where "st1 = st\<lparr>seen_place_ids := insert (place_id p) (seen_place_ids st),
        seen_domains := (if domain \<noteq> [] then insert domain (seen_domains st)
                         else seen_domains st)\<rparr>"
    have nb1: "\<not> budget_reached cfg st1"
      using Cons.prems(1) by (simp add: st1_def budget_reached_def)
    show ?thesis
    proof (cases "extract_emails cfg \<and> website p \<noteq> []")
      case True
      then have "osm_places_loop cfg niche city (p # ps) st cands
                   = osm_places_loop cfg niche city ps st1 (cands @ [(p, niche, city)])"
        using admitted Cons.prems(1) by (auto simp: Let_def domain_def st1_def budget_reached_def)
      then show ?thesis using Cons.IH[OF nb1] Cons.prems(2) by simp
    next
      case direct: False
      show ?thesis
      proof (cases "osm_place_to_lead p niche city")
        case (Inl e)
        then have "osm_places_loop cfg niche city (p # ps) st cands = (Some e, st1, cands)"
          using admitted direct by (auto simp: Let_def domain_def st1_def)
        then show ?thesis using Cons.prems nb1 by (simp add: budget_reached_def)
      next
        case (Inr l)
        define st2 where "st2 = st1\<lparr>leads := leads st1 @ [l]\<rparr>"
        have step: "osm_places_loop cfg niche city (p # ps) st cands
                     = (if budget_reached cfg st2 then (None, st2, cands)
                        else osm_places_loop cfg niche city ps st2 cands)"
          using admitted direct Inr by (auto simp: Let_def domain_def st1_def st2_def)
        have len: "length (leads st2) = Suc (length (leads st1))" by (simp add: st2_def)
        show ?thesis
        proof (cases "budget_reached cfg st2")
          case True
          then show ?thesis
            using step len nb1 Cons.prems(2) by (auto simp: budget_reached_def)
        next
          case False
          then show ?thesis using step Cons.IH[OF False] Cons.prems(2) by simp
        qed
      qed
    qed
  qed
qed

lemma osm_collect_results_budget:
  "int (length (leads (osm_collect_results env cfg done st)))
     \<le> max (max_leads cfg) (int (length (leads st)))"
proof (induction "done" arbitrary: st)
  case Nil
  then show ?case by simp
next
  case (Cons c rest)
  obtain p niche city where c: "c = (p, niche, city)" by (cases c)
  show ?case
  proof (cases "budget_reached cfg st")
    case True
    then show ?thesis using c by simp
  next
    case nb: False
    show ?thesis
    proof (cases "process_place_emails env p niche city")
      case (Inl e)
      then show ?thesis using c nb Cons.IH[of st] by simp
    next
      case (Inr r)
      obtain l has_email where r: "r = (l, has_email)" by (cases r)
      define st1 where "st1 = periodic_checkpoint env cfg (st\<lparr>leads := leads st @ [l]\<rparr>)"
      have "osm_collect_results env cfg (c # rest) st = osm_collect_results env cfg rest st1"
        using c nb Inr r by (simp add: st1_def)
      moreover have "int (length (leads st1)) \<le> max_leads cfg"
        using nb by (simp add: st1_def budget_reached_def)
      ultimately show ?thesis using Cons.IH[of st1] by simp
    qed
  qed
qed

lemma osm_pair_budget:
  assumes "\<not> budget_reached cfg st"
  shows "int (length (leads (osm_pair env cfg niche city st))) \<le> max_leads cfg"
proof (cases "collect_osm_places_for_niche_city env niche city")
  case None
  then show ?thesis using assms by (simp add: osm_pair_def budget_reached_def)
next
  case (Some places)
  obtain exc st1 cands where l: "osm_places_loop cfg niche city places st [] = (exc, st1, cands)"
    by (cases "osm_places_loop cfg niche city places st []")
  have b1: "int (length (leads st1)) \<le> max_leads cfg"
    using osm_places_loop_budget[OF assms l] .
  have "int (length (leads (osm_collect_results env cfg (as_completed env cands) st1)))
          \<le> max_leads cfg"
    using osm_collect_results_budget[of env cfg "as_completed env cands" st1] b1 by simp
  then show ?thesis
    using Some l b1 by (cases exc) (simp_all add: osm_pair_def)
qed

lemma osm_cities_loop_budget:
  "int (length (leads (osm_cities_loop env cfg niche cities st)))
     \<le> max (max_leads cfg) (int (length (leads st)))"
proof (induction cities arbitrary: st)
  case Nil
  then show ?case by simp
next
  case (Cons city cities)
  show ?case
  proof (cases "budget_reached cfg st")
    case True
    then show ?thesis by simp
  next
    case False
    from osm_pair_budget[OF False]
    have "int (length (leads (osm_pair env cfg niche city st))) \<le> max_leads cfg" .
    with Cons.IH[of "osm_pair env cfg niche city st"] False show ?thesis by simp
  qed
qed

lemma osm_niches_loop_budget:
  "int (length (leads (osm_niches_loop env cfg niches cities st)))
     \<le> max (max_leads cfg) (int (length (leads st)))"
proof (induction niches arbitrary: st)
  case Nil
  then show ?case by simp
next
  case (Cons niche niches)
  show ?case
  proof (cases "budget_reached cfg st")
    case True
    then show ?thesis by simp
  next
    case False
    have "int (length (leads (osm_cities_loop env cfg niche cities st))) \<le> max_leads cfg"
      using osm_cities_loop_budget[of env cfg niche cities st] False
      by (simp add: budget_reached_def)
    with Cons.IH[of "osm_cities_loop env cfg niche cities st"] False show ?thesis by simp
  qed
qed

lemma run_osm_budget:
  "int (length (leads (run_osm env cfg niches cities st)))
     \<le> max (max_leads cfg) (int (length (leads st)))"
  by (simp add: run_osm_def osm_niches_loop_budget)

lemma csv_rows_export:
  "length (csv_rows (export_csv fs ls output_path True) output_path) \<le> length ls"
  by (simp add: csv_rows_def export_csv_def)

lemma csv_rows_finish:
  "length (csv_rows (finish env cfg output_path st) output_path) \<le> length (leads st)"
  by (simp add: finish_def Let_def csv_rows_export)

lemma csv_rows_export_eq:
  "csv_rows (export_csv fs ls output_path True) output_path
     = map (csv_row COLUMNS) (filter exportable ls)"
  by (simp add: csv_rows_def export_csv_def)

lemma load_cleared:
  "load_checkpoint v (clear_file True (writable_checkpoint_path v cfile) fs) cfile = ([], {}, {})"
  by (simp add: load_checkpoint_def clear_file_def Let_def)

lemma main_returns:
  "source args = Osm \<or> google_setup env = None \<Longrightarrow> \<not> isl (main env args fs0)"
  by (auto simp: main_def run_google_def Let_def split: prod.splits)

lemma run_collection_returns:
  "niches \<noteq> [] \<Longrightarrow> cities \<noteq> [] \<Longrightarrow> src = Osm \<or> google_setup env = None \<Longrightarrow>
     \<not> isl (run_collection env niches cities max_l harvesting src output_path clear work_dir fs0)"
  by (auto simp: run_collection_def run_google_def Let_def split: prod.splits)

text \<open>
  Claim C2, as amended. The checkpoint a run starts from is the one it loads after the
  optional clearing.

  \<^item> A run of \<open>main\<close> or of \<open>run_collection\<close> that ends with an export and started from a
    checkpoint with fewer leads than the requested budget exports at most as many leads
    as the budget.
  \<^item> A run of \<open>run_collection\<close> that clears the checkpoint (the default) and ends with an
    export exports at most as many leads as the budget, none when the budget is not
    positive.
  \<^item> When the checkpoint \<open>main\<close> starts from holds as many leads as the budget or more,
    \<open>main\<close> collects nothing and returns after the export of the leads of that
    checkpoint; the rows of the exported file are those of them that pass the filter of
    the export, which can be more than the budget.
\<close>

theorem budget_amended:
  "(main env args fs0 = Inr fs'
      \<and> int (length (main_loaded_leads env args fs0)) < arg_max_leads args
      \<longrightarrow> int (length (csv_rows fs' (arg_output args))) \<le> arg_max_leads args)
   \<and> (run_collection env niches cities max_l harvesting src output_path clear work_dir fs0
         = Inr (p, fs'')
      \<and> int (length (collection_loaded_leads env clear work_dir fs0)) < max_l
      \<longrightarrow> int (length (csv_rows fs'' p)) \<le> max_l)
   \<and> (run_collection env niches cities max_l harvesting src output_path clear work_dir fs0
         = Inr (p, fs'')
      \<and> clear
      \<longrightarrow> int (length (csv_rows fs'' p)) \<le> max max_l 0)
   \<and> (arg_max_leads args \<le> int (length (main_loaded_leads env args fs0))
      \<longrightarrow> main env args fs0
            = Inr (export_csv (clear_file (clear_checkpoint args) CHECKPOINT_FILE fs0)
                     (main_loaded_leads env args fs0) (arg_output args) True)
          \<and> csv_rows (export_csv (clear_file (clear_checkpoint args) CHECKPOINT_FILE fs0)
                        (main_loaded_leads env args fs0) (arg_output args) True)
               (arg_output args)
             = map (csv_row COLUMNS) (filter exportable (main_loaded_leads env args fs0)))"
proof -
  have bound: "int (length (csv_rows fs'' p)) \<le> max max_l (int (length ls))"
    if rc: "run_collection env niches cities max_l harvesting src output_path clear work_dir fs0
              = Inr (p, fs'')"
      and ls: "ls = collection_loaded_leads env clear work_dir fs0" for ls
  proof -
    let ?cfile = "collection_checkpoint_file env work_dir"
    let ?fs1 = "clear_file clear (writable_checkpoint_path (on_vercel env) ?cfile) fs0"
    obtain ls' ids doms where l: "load_checkpoint (on_vercel env) ?fs1 ?cfile = (ls', ids, doms)"
      by (cases "load_checkpoint (on_vercel env) ?fs1 ?cfile") auto
    have ls': "ls' = ls" using l ls by (simp add: collection_loaded_leads_def)
    let ?cfg = "\<lparr>max_leads = max_l, extract_emails = harvesting, checkpoint_file = ?cfile\<rparr>"
    let ?st0 = "\<lparr>leads = ls', seen_place_ids = ids, seen_domains = doms, the_files = ?fs1\<rparr>"
    obtain st where f: "fs'' = finish env ?cfg p st"
      and st: "run_google env ?cfg niches cities ?st0 = Inr st
               \<or> st = run_osm env ?cfg niches cities ?st0"
      using rc l by (auto simp: run_collection_def Let_def split: sum.splits if_splits)
    have "int (length (leads st)) \<le> max (max_leads ?cfg) (int (length (leads ?st0)))"
      using st run_google_budget[of env ?cfg niches cities ?st0 st]
        run_osm_budget[of env ?cfg niches cities ?st0]
      by blast
    moreover have "length (csv_rows fs'' p) \<le> length (leads st)"
      using f csv_rows_finish by simp
    ultimately show ?thesis using ls' by simp
  qed
  show ?thesis
  proof (intro conjI impI; (elim conjE)?)
    assume m: "main env args fs0 = Inr fs'"
      and under: "int (length (main_loaded_leads env args fs0)) < arg_max_leads args"
    let ?fs1 = "clear_file (clear_checkpoint args) CHECKPOINT_FILE fs0"
    obtain ls ids doms where l: "load_checkpoint (on_vercel env) ?fs1 None = (ls, ids, doms)"
      by (cases "load_checkpoint (on_vercel env) ?fs1 None") auto
    have ls: "int (length ls) < arg_max_leads args"
      using under l by (simp add: main_loaded_leads_def)
    let ?cfg = "\<lparr>max_leads = arg_max_leads args,
        extract_emails = arg_extract_emails args, checkpoint_file = None\<rparr>"
    let ?st0 = "\<lparr>leads = ls, seen_place_ids = ids, seen_domains = doms, the_files = ?fs1\<rparr>"
    obtain st where f: "fs' = finish env ?cfg (arg_output args) st"
      and st: "run_google env ?cfg [] [] ?st0 = Inr st \<or> st = run_osm env ?cfg [] [] ?st0"
      using m l ls by (auto simp: main_def Let_def split: sum.splits if_splits)
    have "int (length (leads st)) \<le> max (max_leads ?cfg) (int (length (leads ?st0)))"
      using st run_google_budget[of env ?cfg "[]" "[]" ?st0 st]
        run_osm_budget[of env ?cfg "[]" "[]" ?st0]
      by blast
    moreover have "length (csv_rows fs' (arg_output args)) \<le> length (leads st)"
      using f csv_rows_finish by simp
    ultimately show "int (length (csv_rows fs' (arg_output args))) \<le> arg_max_leads args"
      using ls by simp
  next
    assume rc: "run_collection env niches cities max_l harvesting src output_path clear work_dir fs0
                  = Inr (p, fs'')"
      and under: "int (length (collection_loaded_leads env clear work_dir fs0)) < max_l"
    from bound[OF rc refl] under show "int (length (csv_rows fs'' p)) \<le> max_l" by simp
  next
    assume rc: "run_collection env niches cities max_l harvesting src output_path clear work_dir fs0
                  = Inr (p, fs'')"
      and "clear"
    then have "collection_loaded_leads env clear work_dir fs0 = []"
      by (simp add: collection_loaded_leads_def load_cleared)
    with bound[OF rc refl] show "int (length (csv_rows fs'' p)) \<le> max max_l 0" by simp
  next
    assume over: "arg_max_leads args \<le> int (length (main_loaded_leads env args fs0))"
    let ?fs1 = "clear_file (clear_checkpoint args) CHECKPOINT_FILE fs0"
    obtain ls ids doms where l: "load_checkpoint (on_vercel env) ?fs1 None = (ls, ids, doms)"
      by (cases "load_checkpoint (on_vercel env) ?fs1 None") auto
    then have ls: "main_loaded_leads env args fs0 = ls" by (simp add: main_loaded_leads_def)
    show "main env args fs0
            = Inr (export_csv (clear_file (clear_checkpoint args) CHECKPOINT_FILE fs0)
                     (main_loaded_leads env args fs0) (arg_output args) True)"
      using over l unfolding ls by (simp add: main_def Let_def)
  next
    show "csv_rows (export_csv (clear_file (clear_checkpoint args) CHECKPOINT_FILE fs0)
                        (main_loaded_leads env args fs0) (arg_output args) True)
               (arg_output args)
             = map (csv_row COLUMNS) (filter exportable (main_loaded_leads env args fs0))"
      by (rule csv_rows_export_eq)
  qed
qed

theorem budget_counterexample:
  "main_loaded_leads sample_env
      \<lparr>source = Osm, arg_max_leads = 1, arg_extract_emails = False,
       arg_output = ''leads.csv'', clear_checkpoint = False\<rparr> sample_checkpoint
     = [sample_lead ''osm:node:1'' ''Praxis'' ''https://praxis.de'' ''info@praxis.de'',
        sample_lead ''osm:node:2'' ''Zahnarzt'' ''https://zahnarzt.de'' ''mail@zahnarzt.de'']
   \<and> rows_written (main sample_env
      \<lparr>source = Osm, arg_max_leads = 1, arg_extract_emails = False,
       arg_output = ''leads.csv'', clear_checkpoint = False\<rparr> sample_checkpoint) ''leads.csv'' = 2"
  by code_simp

theorem budget_amended_witness:
  "int (length (csv_rows (projr (main sample_env
      \<lparr>source = Google, arg_max_leads = 1, arg_extract_emails = True,
       arg_output = ''leads.csv'', clear_checkpoint = False\<rparr> (\<lambda>p. None))) ''leads.csv'')) \<le> 1
   \<and> int (length (csv_rows
         (snd (projr (run_collection sample_env [''Dentists''] [''Heidelberg''] 1 True Google
                        (Some ''leads.csv'') True None sample_checkpoint)))
         (fst (projr (run_collection sample_env [''Dentists''] [''Heidelberg''] 1 True Google
                        (Some ''leads.csv'') True None sample_checkpoint))))) \<le> 1
   \<and> main sample_env
        \<lparr>source = Osm, arg_max_leads = 1, arg_extract_emails = False,
         arg_output = ''leads.csv'', clear_checkpoint = False\<rparr> sample_checkpoint
      = Inr (export_csv sample_checkpoint
               [sample_lead ''osm:node:1'' ''Praxis'' ''https://praxis.de'' ''info@praxis.de'',
                sample_lead ''osm:node:2'' ''Zahnarzt'' ''https://zahnarzt.de'' ''mail@zahnarzt.de'']
               ''leads.csv'' True)"
proof -
  let ?args = "\<lparr>source = Google, arg_max_leads = 1, arg_extract_emails = True,
       arg_output = ''leads.csv'', clear_checkpoint = False\<rparr>"
  let ?args2 = "\<lparr>source = Osm, arg_max_leads = 1, arg_extract_emails = False,
       arg_output = ''leads.csv'', clear_checkpoint = False\<rparr>"
  let ?m = "main sample_env ?args (\<lambda>p. None)"
  let ?r = "run_collection sample_env [''Dentists''] [''Heidelberg''] 1 True Google
              (Some ''leads.csv'') True None sample_checkpoint"
  have g: "google_setup sample_env = None" by (simp add: sample_env_def)
  have "\<not> isl ?m" using main_returns[of ?args sample_env] g by simp
  then have m: "?m = Inr (projr ?m)" by simp
  have "\<not> isl ?r" using run_collection_returns[of "[''Dentists'']" "[''Heidelberg'']" Google] g by simp
  then have r: "?r = Inr (fst (projr ?r), snd (projr ?r))" by simp
  have l0: "main_loaded_leads sample_env ?args (\<lambda>p. None) = []"
    by (simp add: main_loaded_leads_def load_checkpoint_def clear_file_def)
  have l1: "collection_loaded_leads sample_env True None sample_checkpoint = []"
    by (simp add: collection_loaded_leads_def load_cleared)
  have l2: "main_loaded_leads sample_env ?args2 sample_checkpoint
     = [sample_lead ''osm:node:1'' ''Praxis'' ''https://praxis.de'' ''info@praxis.de'',
        sample_lead ''osm:node:2'' ''Zahnarzt'' ''https://zahnarzt.de'' ''mail@zahnarzt.de'']"
    by (simp add: main_loaded_leads_def load_checkpoint_def clear_file_def sample_checkpoint_def
          writable_checkpoint_path_def sample_env_def)
  have c2: "clear_file (clear_checkpoint ?args2) CHECKPOINT_FILE sample_checkpoint = sample_checkpoint"
    by (simp add: clear_file_def)
  from budget_amended[where env = sample_env and args = ?args and ?fs0.0 = "\<lambda>p. None"
      and fs' = "projr ?m"] m l0
  have a: "int (length (csv_rows (projr ?m) ''leads.csv'')) \<le> 1" by simp
  from budget_amended[where env = sample_env and ?fs0.0 = sample_checkpoint
      and niches = "[''Dentists'']" and cities = "[''Heidelberg'']" and max_l = 1
      and harvesting = True and src = Google and output_path = "Some ''leads.csv''"
      and clear = True and work_dir = None and p = "fst (projr ?r)"
      and fs'' = "snd (projr ?r)"] r l1
  have b: "int (length (csv_rows (snd (projr ?r)) (fst (projr ?r)))) \<le> 1" by simp
  from budget_amended[where env = sample_env and args = ?args2 and ?fs0.0 = sample_checkpoint]
  have c: "main sample_env ?args2 sample_checkpoint
      = Inr (export_csv sample_checkpoint
               [sample_lead ''osm:node:1'' ''Praxis'' ''https://praxis.de'' ''info@praxis.de'',
                sample_lead ''osm:node:2'' ''Zahnarzt'' ''https://zahnarzt.de'' ''mail@zahnarzt.de'']
               ''leads.csv'' True)"
    unfolding l2 c2 by simp
  from a b c show ?thesis by blast
qed

section \<open>Resuming from a checkpoint\<close>

text \<open>
  \<open>osm_place_to_lead\<close> reads the attribute \<open>owner\<close>, which \<open>OSMPlace\<close> does not have, so no
  lead is built on the OpenStreetMap source: neither the loop over the places nor the
  loop over the completed futures appends one.
\<close>

lemma osm_lead_raises: "osm_place_to_lead p niche city = Inl AttributeError"
  by (simp add: osm_place_to_lead_def place_owner_def)








text \<open>
  The loop of \<open>_run_google\<close> only adds to the two sets and to the leads. When a run ends
  under the budget, every place of every niche and city whose adapter call returned is
  known at the end; a run that starts from sets in which all these places are known
  changes nothing.
\<close>

lemma grows_refl [simp]: "grows st st"
  by (simp add: grows_def)




lemma seen_periodic_checkpoint [simp]:
  "seen_place_ids (periodic_checkpoint env cfg st) = seen_place_ids st"
  "seen_domains (periodic_checkpoint env cfg st) = seen_domains st"
  by (simp_all add: periodic_checkpoint_def checkpoint_now_def)

lemma grows_periodic [simp]: "grows st (periodic_checkpoint env cfg st')  = grows st st'"
  by (simp add: grows_def periodic_checkpoint_def checkpoint_now_def)

lemma known_periodic [simp]:
  "known_place (periodic_checkpoint env cfg st) p = known_place st p"
  by (simp add: known_place_def periodic_checkpoint_def checkpoint_now_def)


















lemma load_is_checkpoint_at:
  "fst (load_checkpoint v fs cfile) = fst (checkpoint_at fs (writable_checkpoint_path v cfile))"
  by (simp add: load_checkpoint_def checkpoint_at_def Let_def
           split: option.splits file_content.splits)




lemma collection_checkpoint_file_other_web [simp]:
  "collection_checkpoint_file (env\<lparr>the_web := w, as_completed := ac\<rparr>) work_dir
     = collection_checkpoint_file env work_dir"
  by (simp add: collection_checkpoint_file_def effective_work_dir_def)

lemma sample_place_fields [simp]: "place_id (sample_place i n u) = i" "website (sample_place i n u) = u"
  by (simp_all add: sample_place_def)







text \<open>
  On the Google source a second run that starts under the budget rejects every place
  (\<open>google_resume\<close>). On the OpenStreetMap source the \<open>AttributeError\<close> of
  \<open>osm_place_to_lead\<close> ends the loop over the places right after the first new place was
  put into the two sets, so the second run still finds a new place and puts it into the
  sets; it builds no lead from it. The sample environment, without harvesting:
\<close>

lemma sample_domains: "osm_get_domain ''https://praxis.de'' = ''praxis.de''"
  "osm_get_domain ''https://zahnarzt.de'' = ''zahnarzt.de''"
  by code_simp+

lemma osm_loop_fresh:
  "osm_places_loop \<lparr>max_leads = 5, extract_emails = False, checkpoint_file = cf\<rparr> niche city
     [sample_place ''osm:node:1'' ''Praxis'' ''https://praxis.de'',
      sample_place ''osm:node:2'' ''Zahnarzt'' ''https://zahnarzt.de'']
     \<lparr>leads = [], seen_place_ids = {}, seen_domains = {}, the_files = fs\<rparr> []
   = (Some AttributeError,
      \<lparr>leads = [], seen_place_ids = {''osm:node:1''}, seen_domains = {''praxis.de''},
       the_files = fs\<rparr>, [])"
  by (simp add: sample_domains osm_lead_raises Let_def)

lemma osm_loop_resumed:
  "osm_places_loop \<lparr>max_leads = 5, extract_emails = False, checkpoint_file = cf\<rparr> niche city
     [sample_place ''osm:node:1'' ''Praxis'' ''https://praxis.de'',
      sample_place ''osm:node:2'' ''Zahnarzt'' ''https://zahnarzt.de'']
     \<lparr>leads = [], seen_place_ids = {''osm:node:1''}, seen_domains = {''praxis.de''},
      the_files = fs\<rparr> []
   = (Some AttributeError,
      \<lparr>leads = [], seen_place_ids = {''osm:node:2'', ''osm:node:1''},
       seen_domains = {''zahnarzt.de'', ''praxis.de''}, the_files = fs\<rparr>, [])"
  by (simp add: sample_domains osm_lead_raises Let_def)


lemma sample_env_fields [simp]:
  "on_vercel sample_env = False"
  "collect_osm_places_for_niche_city sample_env niche city =
     Some [sample_place ''osm:node:1'' ''Praxis'' ''https://praxis.de'',
           sample_place ''osm:node:2'' ''Zahnarzt'' ''https://zahnarzt.de'']"
  by (simp_all add: sample_env_def)

lemma sample_env_orders:
  "list_of_set sample_env {''osm:node:1''} = [''osm:node:1'']"
  "list_of_set sample_env {''praxis.de''} = [''praxis.de'']"
  "list_of_set sample_env {''osm:node:2'', ''osm:node:1''} = [''osm:node:1'', ''osm:node:2'']"
  "list_of_set sample_env {''zahnarzt.de'', ''praxis.de''} = [''praxis.de'', ''zahnarzt.de'']"
  by (simp_all add: sample_env_def)

lemma run_osm_fresh:
  "run_osm sample_env \<lparr>max_leads = 5, extract_emails = False, checkpoint_file = cf\<rparr>
     [''Dentists''] [''Heidelberg'']
     \<lparr>leads = [], seen_place_ids = {}, seen_domains = {}, the_files = fs\<rparr>
   = \<lparr>leads = [], seen_place_ids = {''osm:node:1''}, seen_domains = {''praxis.de''},
      the_files = fs\<rparr>"
  by (simp add: run_osm_def osm_pair_def osm_loop_fresh budget_reached_def del: osm_places_loop.simps)

lemma run_osm_resumed:
  "run_osm sample_env \<lparr>max_leads = 5, extract_emails = False, checkpoint_file = cf\<rparr>
     [''Dentists''] [''Heidelberg'']
     \<lparr>leads = [], seen_place_ids = {''osm:node:1''}, seen_domains = {''praxis.de''},
      the_files = fs\<rparr>
   = \<lparr>leads = [], seen_place_ids = {''osm:node:2'', ''osm:node:1''},
      seen_domains = {''zahnarzt.de'', ''praxis.de''}, the_files = fs\<rparr>"
  by (simp add: run_osm_def osm_pair_def osm_loop_resumed budget_reached_def del: osm_places_loop.simps)

lemma finish_no_leads:
  "finish sample_env \<lparr>max_leads = 5, extract_emails = False, checkpoint_file = None\<rparr> out
     \<lparr>leads = [], seen_place_ids = ids, seen_domains = doms, the_files = fs\<rparr>
   = (fs(CHECKPOINT_FILE \<mapsto> Checkpoint_file
         \<lparr>doc_leads = Some [], doc_seen_place_ids = Some (list_of_set sample_env ids),
          doc_seen_domains = Some (list_of_set sample_env doms)\<rparr>))
       (out \<mapsto> Csv_file COLUMNS [])"
  by (simp add: finish_def checkpoint_now_def save_checkpoint_def writable_checkpoint_path_def
        export_csv_def Let_def)


lemma first_run:
  "run_collection sample_env [''Dentists''] [''Heidelberg''] 5 False Osm None False None
     (\<lambda>p. None) = Inr (''outputs/leads_export.csv'', after_first_run)"
  by (simp add: run_collection_def effective_work_dir_def collection_checkpoint_file_def
        clear_file_def load_checkpoint_def writable_checkpoint_path_def OUTPUT_DIR_def
        run_osm_fresh finish_no_leads sample_env_orders after_first_run_def Let_def)

lemma second_run:
  "run_collection sample_env [''Dentists''] [''Heidelberg''] 5 False Osm None False None
     after_first_run = Inr (''outputs/leads_export.csv'', after_second_run)"
proof -
  have l: "load_checkpoint False after_first_run None
             = ([], {''osm:node:1''}, {''praxis.de''})"
    by (simp add: load_checkpoint_def writable_checkpoint_path_def after_first_run_def
          CHECKPOINT_FILE_def OUTPUT_DIR_def)
  show ?thesis
    by (simp add: run_collection_def effective_work_dir_def collection_checkpoint_file_def
          clear_file_def l OUTPUT_DIR_def run_osm_resumed finish_no_leads sample_env_orders
          after_second_run_def Let_def)
qed

lemma osm_second_run_sets:
  "osm_place_to_lead (sample_place ''osm:node:1'' ''Praxis'' ''https://praxis.de'')
      ''Dentists'' ''Heidelberg'' = Inl AttributeError
   \<and> run_collection sample_env [''Dentists''] [''Heidelberg''] 5 False Osm None False None
        (\<lambda>p. None) = Inr (''outputs/leads_export.csv'', after_first_run)
   \<and> run_collection sample_env [''Dentists''] [''Heidelberg''] 5 False Osm None False None
        after_first_run = Inr (''outputs/leads_export.csv'', after_second_run)
   \<and> checkpoint_at after_first_run CHECKPOINT_FILE = ([], [''osm:node:1''], [''praxis.de''])
   \<and> checkpoint_at after_second_run CHECKPOINT_FILE
       = ([], [''osm:node:1'', ''osm:node:2''], [''praxis.de'', ''zahnarzt.de''])"
proof (intro conjI)
  show "checkpoint_at after_first_run CHECKPOINT_FILE = ([], [''osm:node:1''], [''praxis.de''])"
    by (simp add: checkpoint_at_def after_first_run_def CHECKPOINT_FILE_def OUTPUT_DIR_def)
  show "checkpoint_at after_second_run CHECKPOINT_FILE
          = ([], [''osm:node:1'', ''osm:node:2''], [''praxis.de'', ''zahnarzt.de''])"
    by (simp add: checkpoint_at_def after_second_run_def CHECKPOINT_FILE_def OUTPUT_DIR_def)
qed (rule osm_lead_raises first_run second_run)+


section \<open>The dedup ledger\<close>

text \<open>
  What one place does to the set of seen keys, in each of the two loops: the loop of
  \<open>_run_osm\<close> records a new key unless the place has a domain that was seen; the loop of
  \<open>_run_google\<close> records a new key unless the domain was seen, the empty domain included.
\<close>

lemma osm_admission_step:
  "seen_place_ids (fst (snd (osm_places_loop cfg niche city [p] st cands))) \<noteq> seen_place_ids st
     \<longleftrightarrow> place_id p \<notin> seen_place_ids st
          \<and> ((if website p \<noteq> [] then osm_get_domain (website p) else []) = []
               \<or> (if website p \<noteq> [] then osm_get_domain (website p) else []) \<notin> seen_domains st)"
  by (auto simp: Let_def split: sum.splits)

lemma google_admission_step:
  "seen_place_ids (google_places_loop env cfg niche city [p] st) \<noteq> seen_place_ids st
     \<longleftrightarrow> place_id p \<notin> seen_place_ids st
          \<and> get_domain_for_dedup (website p) \<notin> seen_domains st"
  by (auto simp: Let_def periodic_checkpoint_def checkpoint_now_def)

text \<open>
  Claim C1 says that a place is admitted if and only if its identity key is not in the
  set of seen keys and it either has no website domain to check or its domain is not in
  the set of seen domains. \<open>_run_osm\<close> skips the domain test for an empty domain and does
  not record it. \<open>_run_google\<close> tests and records the empty domain like any other: of two
  places with different keys whose websites, \<open>https://www.\<close> and \<open>http://www.\<close>, have an
  empty domain, the second is rejected, where the loop of \<open>_run_osm\<close> admits both.
\<close>

theorem google_rejects_second_empty_domain:
  "get_domain_for_dedup ''https://www.'' = []
   \<and> get_domain_for_dedup ''http://www.'' = []
   \<and> normalize_website ''www.'' = ''https://www.''
   \<and> seen_place_ids (google_places_loop sample_env
         \<lparr>max_leads = 5, extract_emails = False, checkpoint_file = None\<rparr> ''Dentists'' ''Ulm''
         [sample_place ''ChIJ-a'' ''A'' ''https://www.'', sample_place ''ChIJ-b'' ''B'' ''http://www.'']
         \<lparr>leads = [], seen_place_ids = {}, seen_domains = {}, the_files = (\<lambda>p. None)\<rparr>)
       = {''ChIJ-a''}
   \<and> length (leads (google_places_loop sample_env
         \<lparr>max_leads = 5, extract_emails = False, checkpoint_file = None\<rparr> ''Dentists'' ''Ulm''
         [sample_place ''ChIJ-a'' ''A'' ''https://www.'', sample_place ''ChIJ-b'' ''B'' ''http://www.'']
         \<lparr>leads = [], seen_place_ids = {}, seen_domains = {}, the_files = (\<lambda>p. None)\<rparr>)) = 1
   \<and> seen_place_ids (fst (snd (osm_places_loop
         \<lparr>max_leads = 5, extract_emails = True, checkpoint_file = None\<rparr> ''Dentists'' ''Ulm''
         [sample_place ''ChIJ-a'' ''A'' ''https://www.'', sample_place ''ChIJ-b'' ''B'' ''http://www.'']
         \<lparr>leads = [], seen_place_ids = {}, seen_domains = {}, the_files = (\<lambda>p. None)\<rparr> [])))
       = {''ChIJ-a'', ''ChIJ-b''}"
  by code_simp

end
